theory Spec2Isabelle
  imports Main "HOL-Library.Char_ord" "HOL-Library.List_Lexorder" "HOL-Library.Multiset"
begin

section \<open>Python values used by tvfmt\<close>

text \<open>
  Strings are lists of characters. The model's characters are the 256 one-byte
  code points; among those the decimal digits that the regular expression class
  \<^verbatim>\<open>\d\<close> and \<^verbatim>\<open>int()\<close> accept are exactly \<^verbatim>\<open>0\<close> to \<^verbatim>\<open>9\<close>.
  Exceptions are values of type \<open>exn\<close>; \<open>Exit msg\<close> is \<^verbatim>\<open>typer.Exit(1)\<close> raised by
  \<^verbatim>\<open>error(msg)\<close> after the error panel with text \<open>msg\<close> has been printed.
\<close>

datatype exn = ValueError | TypeError | FileNotFoundError | NoSectionError | Exit string

definition is_digit :: "char \<Rightarrow> bool" where
  "is_digit c = (c \<in> set ''0123456789'')"

definition digit_val :: "char \<Rightarrow> int" where
  "digit_val c = of_char c - 48"

text \<open>
  \<^verbatim>\<open>int(s)\<close> on a non-empty string of decimal digits. On any other string the model
  raises ValueError (Python also accepts a sign, blanks and underscores, which no
  call of the program passes: see \<open>parse_episode_file_no_raise\<close>).
\<close>

definition py_int :: "string \<Rightarrow> exn + int" where
  "py_int s =
     (if s \<noteq> [] \<and> list_all is_digit s
      then Inr (foldl (\<lambda>a c. 10 * a + digit_val c) 0 s)
      else Inl ValueError)"

text \<open>\<^verbatim>\<open>s[i:j]\<close> for \<open>0 \<le> i \<le> j\<close>, and \<^verbatim>\<open>s[i:]\<close>.\<close>

definition slice :: "nat \<Rightarrow> nat \<Rightarrow> 'a list \<Rightarrow> 'a list" where
  "slice i j xs = drop i (take j xs)"

definition slice_from :: "nat \<Rightarrow> 'a list \<Rightarrow> 'a list" where
  "slice_from i xs = drop i xs"

text \<open>\<^verbatim>\<open>str(n)\<close> for a natural number: its decimal digits.\<close>

definition digit_char :: "nat \<Rightarrow> char" where
  "digit_char d = ''0123456789'' ! d"

fun digits_of :: "nat \<Rightarrow> string" where
  "digits_of n = (if n < 10 then [digit_char n] else digits_of (n div 10) @ [digit_char (n mod 10)])"

declare digits_of.simps [simp del]

text \<open>
  The format specification \<^verbatim>\<open>:02\<close> of an f-string applied to an integer: minimum
  width 2, fill character \<^verbatim>\<open>0\<close>, the fill placed between the sign and the digits.
\<close>

definition format_02 :: "int \<Rightarrow> string" where
  "format_02 n =
     (let sign = (if n < 0 then ''-'' else '''');
          ds = digits_of (nat \<bar>n\<bar>)
      in sign @ replicate (2 - (length sign + length ds)) CHR ''0'' @ ds)"

text \<open>\<^verbatim>\<open>s.replace(old, new)\<close> for a one-character \<open>old\<close>.\<close>

definition replace_char :: "char \<Rightarrow> string \<Rightarrow> string \<Rightarrow> string" where
  "replace_char old new s = concat (map (\<lambda>c. if c = old then new else [c]) s)"

text \<open>\<^verbatim>\<open>s.startswith(p)\<close>.\<close>

fun startswith :: "string \<Rightarrow> string \<Rightarrow> bool" where
  "startswith s [] = True"
| "startswith [] (p # ps) = False"
| "startswith (c # cs) (p # ps) = (c = p \<and> startswith cs ps)"

section \<open>api.py: the dataclasses\<close>

record TvShow =
  show_name :: string
  show_year :: string
  show_id :: int

record TvSeason =
  season_name :: string
  season_episode_count :: int
  season_number :: int
  season_id :: int

record TvEpisode =
  episode_name :: string
  episode_number :: int
  episode_id :: int

section \<open>The regular expression of parse_episode_file\<close>

text \<open>
  The pattern \<^verbatim>\<open>[Ss]\d{2}[Ee]\d{2}\<close> is a sequence of six character classes, so a
  match at a position is decided character by character, with no backtracking.
  \<open>findall\<close> is \<^verbatim>\<open>re.findall\<close>: the non-overlapping matches, scanning from the left;
  after a match the scan resumes behind it, otherwise one character further.
\<close>

datatype char_class = OneOf string | Digit

fun in_class :: "char_class \<Rightarrow> char \<Rightarrow> bool" where
  "in_class (OneOf cs) c = (c \<in> set cs)"
| "in_class Digit c = is_digit c"

definition pattern :: "char_class list" where
  "pattern = [OneOf ''Ss'', Digit, Digit, OneOf ''Ee'', Digit, Digit]"

fun match_here :: "char_class list \<Rightarrow> string \<Rightarrow> bool" where
  "match_here [] s = True"
| "match_here (k # ks) [] = False"
| "match_here (k # ks) (c # cs) = (in_class k c \<and> match_here ks cs)"

function findall :: "char_class list \<Rightarrow> string \<Rightarrow> string list" where
  "findall p s =
     (if p = [] then replicate (Suc (length s)) []
      else if s = [] then []
      else if match_here p s then take (length p) s # findall p (drop (length p) s)
      else findall p (tl s))"
  by pat_completeness auto
termination
  by (relation "measure (\<lambda>(p, s). length s)") auto

declare findall.simps [simp del]

section \<open>main.py: parse_episode_file and format_filename\<close>

definition parse_episode_file :: "string \<Rightarrow> exn + (int \<times> int) option" where
  "parse_episode_file filename =
     (case findall pattern filename of
        [] \<Rightarrow> Inr None
      | m # _ \<Rightarrow>
          (case py_int (slice 1 3 m) of
             Inl e \<Rightarrow> Inl e
           | Inr season_num \<Rightarrow>
               (case py_int (slice_from 4 m) of
                  Inl e \<Rightarrow> Inl e
                | Inr episode_num \<Rightarrow> Inr (Some (season_num, episode_num)))))"

text \<open>
  What an f-string field \<^verbatim>\<open>{episode_name}\<close> can receive: a string, or what
  \<^verbatim>\<open>find_by_attr\<close> returns (an episode, rendered by \<^verbatim>\<open>TvEpisode.__str__\<close> as its
  name, or \<^verbatim>\<open>None\<close>, rendered as the text \<^verbatim>\<open>None\<close>).
\<close>

datatype fmt_arg = PyNone | PyStr string | PyEpisode TvEpisode

fun py_str :: "fmt_arg \<Rightarrow> string" where
  "py_str PyNone = ''None''"
| "py_str (PyStr s) = s"
| "py_str (PyEpisode ep) = episode_name ep"

definition format_filename :: "string \<Rightarrow> int \<Rightarrow> int \<Rightarrow> fmt_arg \<Rightarrow> string \<Rightarrow> string" where
  "format_filename show season_num episode_num ep_name ext =
     replace_char CHR '':'' '''' show @ '' S'' @ format_02 season_num @ ''E'' @
     format_02 episode_num @ '' '' @ py_str ep_name @ ext"

section \<open>pathlib: pure POSIX paths\<close>

text \<open>
  A path is the list of its components, as \<^verbatim>\<open>PurePosixPath.parts\<close> gives them; a
  root is the leading component \<^verbatim>\<open>/\<close> (or \<^verbatim>\<open>//\<close>). \<open>joinpath p s\<close> is \<^verbatim>\<open>p / s\<close>:
  the string is split at the slashes, empty and \<^verbatim>\<open>.\<close> components are dropped, and
  a string that starts with a slash replaces the path. \<open>path_suffix\<close> follows the
  property \<^verbatim>\<open>suffix\<close>: the part of the name from its last dot on, unless that
  dot is the first or the last character of the name.
\<close>

type_synonym path = "string list"

definition is_root :: "path \<Rightarrow> bool" where
  "is_root p = (p = [''/''] \<or> p = [''//''])"

definition path_name :: "path \<Rightarrow> string" where
  "path_name p = (if p = [] \<or> is_root p then '''' else last p)"

definition path_parent :: "path \<Rightarrow> path" where
  "path_parent p = (if is_root p then p else butlast p)"

definition rfind :: "string \<Rightarrow> char \<Rightarrow> int" where
  "rfind s c =
     (if c \<in> set s then int (length s) - 1 - int (length (takeWhile (\<lambda>x. x \<noteq> c) (rev s)))
      else - 1)"

definition path_suffix :: "path \<Rightarrow> string" where
  "path_suffix p =
     (let name = path_name p; i = rfind name CHR ''.''
      in if 0 < i \<and> i < int (length name) - 1 then drop (nat i) name else '''')"

fun split_on :: "char \<Rightarrow> string \<Rightarrow> string list" where
  "split_on sep [] = [[]]"
| "split_on sep (c # cs) =
     (if c = sep then [] # split_on sep cs
      else (case split_on sep cs of [] \<Rightarrow> [[c]] | w # ws \<Rightarrow> (c # w) # ws))"

definition joinpath :: "path \<Rightarrow> string \<Rightarrow> path" where
  "joinpath p s =
     (let parts = filter (\<lambda>w. \<not> (w = '''' \<or> w = ''.'')) (split_on CHR ''/'' s)
      in if startswith s ''/''
         then (if startswith s ''//'' \<and> \<not> startswith s ''///'' then ''//'' else ''/'') # parts
         else p @ parts)"

section \<open>utils.py\<close>

text \<open>
  \<open>find_by_attr\<close>: the attribute is given as its getter (every element of the
  lists the program passes has the attribute, so \<^verbatim>\<open>hasattr\<close> holds).
\<close>

fun find_by_attr :: "'a list \<Rightarrow> ('a \<Rightarrow> 'v) \<Rightarrow> 'v \<Rightarrow> 'a option" where
  "find_by_attr [] attr v = None"
| "find_by_attr (i # lst) attr v = (if attr i = v then Some i else find_by_attr lst attr v)"

text \<open>
  A directory is read as the list of its entries in enumeration order, each with
  the answer of \<^verbatim>\<open>is_file()\<close>; \<^verbatim>\<open>Path.iterdir(path)\<close> yields the entry names joined
  to the directory. \<^verbatim>\<open>files.sort()\<close> sorts by the order of paths, which compares
  the components as a list and each component as a string, character by
  character.
\<close>

definition iterdir :: "path \<Rightarrow> (string \<times> bool) list \<Rightarrow> (path \<times> bool) list" where
  "iterdir dir entries = map (\<lambda>(n, reg). (dir @ [n], reg)) entries"

fun get_files_loop :: "(path \<times> bool) list \<Rightarrow> path list \<Rightarrow> path list" where
  "get_files_loop [] files = files"
| "get_files_loop ((f, reg) # rest) files =
     (if reg \<and> \<not> startswith (path_name f) ''.''
      then get_files_loop rest (files @ [f])
      else get_files_loop rest files)"

definition get_files :: "(path \<times> bool) list \<Rightarrow> bool \<Rightarrow> path list" where
  "get_files dir_iter sort_flag =
     (let files = get_files_loop dir_iter []
      in if sort_flag then sort files else files)"

text \<open>
  The disk holds the regular files and their contents. \<^verbatim>\<open>old.rename(new)\<close> moves
  the content; it raises when the source does not exist. \<open>rename_files\<close> returns
  the disk as the loop left it, with the exception that ended it, if any.
\<close>

type_synonym disk = "path \<rightharpoonup> string"

definition os_rename :: "disk \<Rightarrow> path \<Rightarrow> path \<Rightarrow> exn + disk" where
  "os_rename d old_file new_file =
     (case d old_file of
        None \<Rightarrow> Inl FileNotFoundError
      | Some content \<Rightarrow> Inr ((d(old_file := None))(new_file \<mapsto> content)))"

fun rename_files :: "disk \<Rightarrow> (path \<times> path) list \<Rightarrow> disk \<times> exn option" where
  "rename_files d [] = (d, None)"
| "rename_files d ((old_file, new_file) # rest) =
     (case os_rename d old_file new_file of
        Inl e \<Rightarrow> (d, Some e)
      | Inr d' \<Rightarrow> rename_files d' rest)"

section \<open>main.py: the rename plan\<close>

record PathChange =
  old :: path
  new :: path
  is_file :: bool

definition paths :: "PathChange \<Rightarrow> path \<times> path" where
  "paths c = (old c, new c)"

text \<open>
  The decorator \<^verbatim>\<open>exit_on_null(message)\<close>: a result that is \<^verbatim>\<open>None\<close> or the empty
  list ends the run through \<^verbatim>\<open>error(message)\<close>; an exception of the decorated
  function passes through.
\<close>

definition exit_on_null :: "string \<Rightarrow> exn + 'a list \<Rightarrow> exn + 'a list" where
  "exit_on_null message result =
     (case result of
        Inl e \<Rightarrow> Inl e
      | Inr xs \<Rightarrow> if xs = [] then Inl (Exit message) else Inr xs)"

definition exit_on_none :: "string \<Rightarrow> exn + 'a option \<Rightarrow> exn + 'a" where
  "exit_on_none message result =
     (case result of
        Inl e \<Rightarrow> Inl e
      | Inr None \<Rightarrow> Inl (Exit message)
      | Inr (Some x) \<Rightarrow> Inr x)"

definition found_episode :: "TvEpisode option \<Rightarrow> fmt_arg" where
  "found_episode r = (case r of None \<Rightarrow> PyNone | Some ep \<Rightarrow> PyEpisode ep)"

fun file_changes_loop ::
  "path list \<Rightarrow> string \<Rightarrow> TvEpisode list \<Rightarrow> PathChange list \<Rightarrow> exn + PathChange list" where
  "file_changes_loop [] show episodes changes = Inr changes"
| "file_changes_loop (f # files) show episodes changes =
     (case parse_episode_file (path_name f) of
        Inl e \<Rightarrow> Inl e
      | Inr None \<Rightarrow> file_changes_loop files show episodes changes
      | Inr (Some (season_num, episode_num)) \<Rightarrow>
          (let ep_name = found_episode (find_by_attr episodes episode_number episode_num);
               new_name = format_filename show season_num episode_num ep_name (path_suffix f)
           in file_changes_loop files show episodes
                (changes @ [\<lparr>old = f, new = joinpath (path_parent f) new_name, is_file = True\<rparr>])))"

definition get_file_changes :: "path list \<Rightarrow> string \<Rightarrow> TvEpisode list \<Rightarrow> exn + PathChange list" where
  "get_file_changes files show episodes =
     exit_on_null ''Unable to parse files in given directory.''
       (file_changes_loop files show episodes [])"

section \<open>api.py: the provider\<close>

text \<open>
  The provider's JSON answers are read as lists whose items already carry the
  values the code takes out of them with \<^verbatim>\<open>get\<close>, of the types the dataclasses
  declare. Each function is the loop of the source over the answer.
\<close>

fun get_show_seasons_loop :: "TvSeason list \<Rightarrow> TvSeason list \<Rightarrow> TvSeason list" where
  "get_show_seasons_loop [] seasons = seasons"
| "get_show_seasons_loop (result # data) seasons =
     (if season_number result > 0
      then get_show_seasons_loop data (seasons @ [result])
      else get_show_seasons_loop data seasons)"

definition get_show_seasons :: "TvSeason list \<Rightarrow> TvSeason list" where
  "get_show_seasons data = get_show_seasons_loop data []"

fun get_season_episodes_loop :: "TvEpisode list \<Rightarrow> TvEpisode list \<Rightarrow> TvEpisode list" where
  "get_season_episodes_loop [] episodes = episodes"
| "get_season_episodes_loop (result # data) episodes =
     get_season_episodes_loop data (episodes @ [result])"

definition get_season_episodes :: "TvEpisode list \<Rightarrow> TvEpisode list" where
  "get_season_episodes data = get_season_episodes_loop data []"

fun search_tv_shows_loop :: "TvShow list \<Rightarrow> TvShow list \<Rightarrow> TvShow list" where
  "search_tv_shows_loop [] tv_shows = tv_shows"
| "search_tv_shows_loop (result # data) tv_shows =
     search_tv_shows_loop data (tv_shows @ [result])"

definition search_tv_shows :: "(string \<Rightarrow> TvShow list) \<Rightarrow> string option \<Rightarrow> nat \<Rightarrow> TvShow list" where
  "search_tv_shows response query limit =
     (case query of
        None \<Rightarrow> []
      | Some q \<Rightarrow> if q = [] then [] else search_tv_shows_loop (take limit (response q)) [])"

section \<open>main.py: the orchestrator\<close>

text \<open>
  Everything outside the program is a field of the world: what the provider
  answers, what the user answers to each question (\<open>None\<close> when the question is
  cancelled), what the directory holds. A function that talks to the user
  returns the events it caused, in order, with its result.
\<close>

datatype event = Asked string | Panel "PathChange list" | Printed string

record world =
  is_dir :: bool
  text_answer :: "string option"
  search_response :: "string \<Rightarrow> TvShow list"
  show_answer :: "TvShow option"
  seasons_response :: "int \<Rightarrow> TvSeason list"
  season_answer :: "TvSeason option"
  episodes_response :: "int \<Rightarrow> int \<Rightarrow> TvEpisode list"
  dir_entries :: "(string \<times> bool) list"
  confirm_answer :: "bool option"

text \<open>
  \<^verbatim>\<open>questionary.select(title, choices).ask()\<close>: building the question raises
  ValueError when there is no choice; otherwise the user is asked. With
  \<^verbatim>\<open>skip_if(auto, default=...)\<close> and \<open>auto\<close> set, the default is returned and nothing
  is asked. The message of the error panel for a missing directory is shortened.
\<close>

definition select :: "string \<Rightarrow> 'a list \<Rightarrow> 'a option \<Rightarrow> event list \<times> (exn + 'a option)" where
  "select title choices answer =
     (if choices = [] then ([], Inl ValueError) else ([Asked title], Inr answer))"

definition get_tv_show :: "world \<Rightarrow> string option \<Rightarrow> bool \<Rightarrow> event list \<times> (exn + TvShow)" where
  "get_tv_show w show auto =
     (let (ev, name) =
            (if show = None \<or> show = Some ''''
             then ([Asked ''Search Tv Shows''], text_answer w)
             else ([], show))
      in case search_tv_shows (search_response w) name 5 of
           [] \<Rightarrow> (ev, Inl (Exit ''Unable to find TV Show matching given name.''))
         | first # others \<Rightarrow>
             if auto then (ev, Inr first)
             else (case select ''Tv Show'' (first # others) (show_answer w) of
                     (ev', r) \<Rightarrow>
                       (ev @ ev', exit_on_none ''Unable to find TV Show matching given name.'' r)))"

definition get_tv_season :: "world \<Rightarrow> int \<Rightarrow> int option \<Rightarrow> event list \<times> (exn + TvSeason)" where
  "get_tv_season w sid season_num =
     (let seasons = get_show_seasons (seasons_response w sid)
      in case season_num of
           Some n \<Rightarrow>
             if n \<noteq> 0 \<and> 0 < n \<and> n \<le> int (length seasons)
             then ([], Inr (seasons ! nat (n - 1)))
             else (case select ''Season'' seasons (season_answer w) of
                     (ev, r) \<Rightarrow> (ev, exit_on_none ''Invalid season number given.'' r))
         | None \<Rightarrow>
             (case select ''Season'' seasons (season_answer w) of
                (ev, r) \<Rightarrow> (ev, exit_on_none ''Invalid season number given.'' r)))"

definition get_tv_episodes :: "world \<Rightarrow> int \<Rightarrow> int \<Rightarrow> exn + TvEpisode list" where
  "get_tv_episodes w sid season_num =
     exit_on_null ''Unable to find episodes for given season.''
       (Inr (get_season_episodes (episodes_response w sid season_num)))"

definition confirm_changes :: "world \<Rightarrow> PathChange list \<Rightarrow> event list \<times> bool option" where
  "confirm_changes w changes =
     ([Panel (filter is_file changes), Asked ''Commit changes''], confirm_answer w)"

definition run ::
  "world \<Rightarrow> disk \<Rightarrow> path \<Rightarrow> string option \<Rightarrow> int option \<Rightarrow> bool \<Rightarrow> bool \<Rightarrow>
     event list \<times> disk \<times> exn option" where
  "run w d dir show season auto user_confirm =
     (if \<not> is_dir w then ([], d, Some (Exit ''Invalid value for PATH''))
      else case get_tv_show w show auto of
        (ev1, Inl e) \<Rightarrow> (ev1, d, Some e)
      | (ev1, Inr tv_show) \<Rightarrow>
      (case get_tv_season w (show_id tv_show) season of
        (ev2, Inl e) \<Rightarrow> (ev1 @ ev2, d, Some e)
      | (ev2, Inr tv_season) \<Rightarrow>
      (case get_tv_episodes w (show_id tv_show) (season_number tv_season) of
        Inl e \<Rightarrow> (ev1 @ ev2, d, Some e)
      | Inr tv_episodes \<Rightarrow>
      (case get_file_changes (get_files (iterdir dir (dir_entries w)) True)
              (show_name tv_show) tv_episodes of
        Inl e \<Rightarrow> (ev1 @ ev2, d, Some e)
      | Inr changes \<Rightarrow>
          if user_confirm then
            (case confirm_changes w changes of
               (ev3, confirm) \<Rightarrow>
                 if confirm = Some True then
                   (case rename_files d (map paths changes) of
                      (d', Some e) \<Rightarrow> (ev1 @ ev2 @ ev3, d', Some e)
                    | (d', None) \<Rightarrow> (ev1 @ ev2 @ ev3 @ [Printed ''Done!''], d', None))
                 else (ev1 @ ev2 @ ev3 @ [Printed ''Done!''], d, None))
          else (ev1 @ ev2 @ [Printed ''Done!''], d, None)))))"

section \<open>config.py\<close>

text \<open>
  The state of a \<^verbatim>\<open>ConfigParser\<close>: the options of the default section and the
  sections in order, each an ordered dictionary. \<^verbatim>\<open>ConfigParser.set\<close> first checks
  the interpolation syntax of a non-empty value (after \<^verbatim>\<open>%%\<close> and the references
  \<^verbatim>\<open>%(name)s\<close> are taken out, no \<^verbatim>\<open>%\<close> may be left, else ValueError), then looks the
  section up (NoSectionError when it is missing) and stores the value under the
  lower-cased option name. \<^verbatim>\<open>ConfigParser.write\<close> prints every section as a header
  line, one line \<^verbatim>\<open>key = value\<close> for each option and an empty line.
  The section name \<^verbatim>\<open>APP_NAME\<close> is declared in a module that is not part of the
  sources at hand, so it is a parameter of the model.
\<close>

datatype CliConfigKey = TRAKT_API_KEY | AUTO | CONFIRM

fun key_value :: "CliConfigKey \<Rightarrow> string" where
  "key_value TRAKT_API_KEY = ''trakt_api_key''"
| "key_value AUTO = ''auto''"
| "key_value CONFIRM = ''confirm''"

definition lower_char :: "char \<Rightarrow> char" where
  "lower_char c =
     (let n = (of_char c :: nat)
      in if (65 \<le> n \<and> n \<le> 90) \<or> (192 \<le> n \<and> n \<le> 222 \<and> \<not> n = 215) then char_of (n + 32) else c)"

definition lower :: "string \<Rightarrow> string" where
  "lower s = map lower_char s"

fun dict_set :: "('k \<times> 'v) list \<Rightarrow> 'k \<Rightarrow> 'v \<Rightarrow> ('k \<times> 'v) list" where
  "dict_set [] k v = [(k, v)]"
| "dict_set ((k', v') # rest) k v = (if k' = k then (k, v) # rest else (k', v') # dict_set rest k v)"

text \<open>\<^verbatim>\<open>value.replace('%%', '')\<close>, from the left.\<close>

fun remove_escaped :: "string \<Rightarrow> string" where
  "remove_escaped (a # b # cs) =
     (if a = CHR ''%'' \<and> b = CHR ''%'' then remove_escaped cs else a # remove_escaped (b # cs))"
| "remove_escaped cs = cs"

text \<open>
  \<^verbatim>\<open>_KEYCRE.sub('', s)\<close> for the expression \<^verbatim>\<open>%\(([^)]+)\)s\<close>: a match is \<^verbatim>\<open>%(\<close>, at
  least one character up to the next \<^verbatim>\<open>)\<close>, and \<^verbatim>\<open>)s\<close>.
\<close>

definition key_match :: "string \<Rightarrow> string option" where
  "key_match s =
     (if startswith s ''%(''
      then (let body = takeWhile (\<lambda>c. c \<noteq> CHR '')'') (drop 2 s);
                rest = dropWhile (\<lambda>c. c \<noteq> CHR '')'') (drop 2 s)
            in if body \<noteq> [] \<and> startswith rest '')s'' then Some (drop 2 rest) else None)
      else None)"

lemma key_match_shorter: "key_match s = Some r \<Longrightarrow> length r < length s"
proof -
  assume a: "key_match s = Some r"
  have "length (dropWhile (\<lambda>c. c \<noteq> CHR '')'') (drop 2 s)) \<le> length (drop 2 s)"
    by (rule length_dropWhile_le)
  moreover from a have "r = drop 2 (dropWhile (\<lambda>c. c \<noteq> CHR '')'') (drop 2 s))" "s \<noteq> []"
    by (auto simp: key_match_def Let_def split: if_splits)
  ultimately show ?thesis by (cases s) auto
qed

function remove_keys :: "string \<Rightarrow> string" where
  "remove_keys s =
     (case s of
        [] \<Rightarrow> []
      | c # cs \<Rightarrow> (case key_match s of Some r \<Rightarrow> remove_keys r | None \<Rightarrow> c # remove_keys cs))"
  by pat_completeness auto
termination
  by (relation "measure length") (auto dest: key_match_shorter)

declare remove_keys.simps [simp del]

definition valid_interpolation :: "string \<Rightarrow> bool" where
  "valid_interpolation v = (v = [] \<or> CHR ''%'' \<notin> set (remove_keys (remove_escaped v)))"

record parser_state =
  defaults :: "(string \<times> string) list"
  sections :: "(string \<times> (string \<times> string) list) list"

definition parser_set :: "parser_state \<Rightarrow> string \<Rightarrow> string \<Rightarrow> string \<Rightarrow> exn + parser_state" where
  "parser_set p section option v =
     (if \<not> valid_interpolation v then Inl ValueError
      else if section = [] \<or> section = ''DEFAULT''
      then Inr (p\<lparr>defaults := dict_set (defaults p) (lower option) v\<rparr>)
      else (case map_of (sections p) section of
              None \<Rightarrow> Inl NoSectionError
            | Some sectdict \<Rightarrow>
                Inr (p\<lparr>sections := dict_set (sections p) section (dict_set sectdict (lower option) v)\<rparr>)))"

definition write_section :: "string \<Rightarrow> (string \<times> string) list \<Rightarrow> string" where
  "write_section section_name items =
     ''['' @ section_name @ '']'' @ [CHR 0x0A] @
     concat (map (\<lambda>(k, v). k @ '' = '' @ replace_char (CHR 0x0A) [CHR 0x0A, CHR 0x09] v @ [CHR 0x0A]) items) @
     [CHR 0x0A]"

definition parser_write :: "parser_state \<Rightarrow> string" where
  "parser_write p =
     (if defaults p = [] then [] else write_section ''DEFAULT'' (defaults p)) @
     concat (map (\<lambda>(n, items). write_section n items) (sections p))"

record CliConfig =
  parser :: parser_state
  config_file :: string

definition must_be_boolean :: "CliConfigKey \<Rightarrow> string" where
  "must_be_boolean key = ''Config key '' @ [CHR 0x27] @ key_value key @ [CHR 0x27] @ '' must be a boolean.''"

definition CliConfig_set ::
  "string \<Rightarrow> CliConfig \<Rightarrow> CliConfigKey \<Rightarrow> string \<Rightarrow> event list \<times> CliConfig \<times> (exn + bool)" where
  "CliConfig_set app_name cfg key v =
     (if key \<in> set [AUTO, CONFIRM] \<and> lower v \<notin> set [''true'', ''false'']
      then ([Printed (must_be_boolean key)], cfg, Inr False)
      else (case parser_set (parser cfg) app_name (key_value key) v of
              Inl e \<Rightarrow> ([], cfg, Inl e)
            | Inr p \<Rightarrow> ([], cfg\<lparr>parser := p, config_file := parser_write p\<rparr>, Inr True)))"

section \<open>Notions of the specification\<close>

text \<open>
  An occurrence of the pattern at position \<open>i\<close> of a string: the six characters
  from \<open>i\<close> on are a letter S, two digits, a letter E and two digits.
\<close>

definition occurs_at :: "string \<Rightarrow> nat \<Rightarrow> bool" where
  "occurs_at s i = match_here pattern (drop i s)"

text \<open>
  The words of the filename template: the show name with its colons removed, and
  a number zero-padded to two digits (a numeral of one digit gets a zero in
  front; any other numeral is left as it is).
\<close>

definition remove_colons :: "string \<Rightarrow> string" where
  "remove_colons s = filter (\<lambda>c. c \<noteq> CHR '':'') s"

definition numeral_of :: "int \<Rightarrow> string" where
  "numeral_of n = (if n < 0 then ''-'' @ digits_of (nat (- n)) else digits_of (nat n))"

definition zero_padded2 :: "int \<Rightarrow> string" where
  "zero_padded2 n = (if 0 \<le> n \<and> n < 10 then CHR ''0'' # numeral_of n else numeral_of n)"

text \<open>
  A filename parses when the parser returns a pair. \<open>change_for\<close> is the entry
  that one file contributes to the plan: none when its name does not parse.
\<close>

definition parsed :: "string \<Rightarrow> bool" where
  "parsed filename = (case parse_episode_file filename of Inr (Some p) \<Rightarrow> True | _ \<Rightarrow> False)"

definition change_for :: "string \<Rightarrow> TvEpisode list \<Rightarrow> path \<Rightarrow> PathChange list" where
  "change_for show episodes f =
     (case parse_episode_file (path_name f) of
        Inr (Some (season_num, episode_num)) \<Rightarrow>
          [\<lparr>old = f,
            new = joinpath (path_parent f)
                    (format_filename show season_num episode_num
                       (found_episode (find_by_attr episodes episode_number episode_num))
                       (path_suffix f)),
            is_file = True\<rparr>]
      | _ \<Rightarrow> [])"

text \<open>
  A string contains the pattern when some position of it holds an occurrence.
\<close>

definition contains_pattern :: "string \<Rightarrow> bool" where
  "contains_pattern s = list_ex (occurs_at s) [0..<length s]"

text \<open>
  The entries of a directory that \<open>get_files\<close> keeps: regular files whose name
  does not start with a dot. The name of a directory entry holds no slash.
\<close>

definition kept :: "path \<times> bool \<Rightarrow> bool" where
  "kept e = (snd e \<and> \<not> startswith (path_name (fst e)) ''.'')"

definition no_slash :: "string \<times> bool \<Rightarrow> bool" where
  "no_slash e = (CHR ''/'' \<notin> set (fst e))"

text \<open>
  A set operation is rejected when the key is \<^verbatim>\<open>auto\<close> or \<^verbatim>\<open>confirm\<close> and the value in
  lower case is neither \<^verbatim>\<open>true\<close> nor \<^verbatim>\<open>false\<close>. \<open>options_of\<close> reads the options of a
  section as \<^verbatim>\<open>ConfigParser.set\<close> finds them: the defaults for the default section.
\<close>

definition options_of :: "parser_state \<Rightarrow> string \<Rightarrow> (string \<times> string) list option" where
  "options_of p section =
     (if section = [] \<or> section = ''DEFAULT'' then Some (defaults p) else map_of (sections p) section)"

definition rejected :: "CliConfigKey \<Rightarrow> string \<Rightarrow> bool" where
  "rejected key v = (key \<in> set [AUTO, CONFIRM] \<and> lower v \<notin> set [''true'', ''false''])"

section \<open>An example run\<close>

text \<open>
  A provider that answers every search with one show, whose seasons are the
  specials and the seasons 2 and 3; a directory \<^verbatim>\<open>d\<close> that lists, in this order,
  an episode file, a dot file, a subdirectory and another episode file; and a
  configuration file as \<^verbatim>\<open>_setup\<close> writes it.
\<close>

definition specials :: TvSeason where
  "specials = \<lparr>season_name = ''Specials'', season_episode_count = 3, season_number = 0, season_id = 10\<rparr>"

definition season_two :: TvSeason where
  "season_two = \<lparr>season_name = ''Season 2'', season_episode_count = 8, season_number = 2, season_id = 12\<rparr>"

definition season_three :: TvSeason where
  "season_three = \<lparr>season_name = ''Season 3'', season_episode_count = 8, season_number = 3, season_id = 13\<rparr>"

definition pilot :: TvEpisode where
  "pilot = \<lparr>episode_name = ''Pilot'', episode_number = 1, episode_id = 21\<rparr>"

definition second_ep :: TvEpisode where
  "second_ep = \<lparr>episode_name = ''Second'', episode_number = 2, episode_id = 22\<rparr>"

definition demo_entries :: "(string \<times> bool) list" where
  "demo_entries =
     [(''b_S02E02.mkv'', True), (''.c_S02E03.mkv'', True), (''sub'', False), (''a_S02E01.mkv'', True)]"

definition demo_world :: world where
  "demo_world =
     \<lparr>is_dir = True,
      text_answer = None,
      search_response = (\<lambda>q. [\<lparr>show_name = ''Show: X'', show_year = ''2020'', show_id = 1\<rparr>]),
      show_answer = None,
      seasons_response = (\<lambda>i. [specials, season_two, season_three]),
      season_answer = Some season_three,
      episodes_response = (\<lambda>i n. [pilot, second_ep]),
      dir_entries = demo_entries,
      confirm_answer = Some True\<rparr>"

definition demo_disk :: disk where
  "demo_disk = [[''d'', ''a_S02E01.mkv''] \<mapsto> ''A'', [''d'', ''b_S02E02.mkv''] \<mapsto> ''B'',
                [''d'', ''.c_S02E03.mkv''] \<mapsto> ''C'']"

definition demo_plan :: "PathChange list" where
  "demo_plan =
     [\<lparr>old = [''d'', ''a_S02E01.mkv''], new = [''d'', ''Show X S02E01 Pilot.mkv''], is_file = True\<rparr>,
      \<lparr>old = [''d'', ''b_S02E02.mkv''], new = [''d'', ''Show X S02E02 Second.mkv''], is_file = True\<rparr>]"

definition pilot5 :: TvEpisode where
  "pilot5 = \<lparr>episode_name = ''Pilot'', episode_number = 5, episode_id = 25\<rparr>"

definition demo_config :: CliConfig where
  "demo_config =
     \<lparr>parser = \<lparr>defaults = [],
                sections = [(''tvfmt'', [(''trakt_api_key'', ''''), (''auto'', ''False''), (''confirm'', ''True'')])]\<rparr>,
      config_file = ''[tvfmt]'' @ [CHR 0x0A] @ ''trakt_api_key = '' @ [CHR 0x0A] @ ''auto = False'' @ [CHR 0x0A] @
                    ''confirm = True'' @ [CHR 0x0A, CHR 0x0A]\<rparr>"

section \<open>The filename parser\<close>

lemma pattern_len: "length pattern = 6"
  by (simp add: pattern_def)

lemma pattern_ne: "pattern \<noteq> []"
  by (simp add: pattern_def)

lemma match_here_pattern_iff:
  "match_here pattern s \<longleftrightarrow>
     (\<exists>a b c d e f rest. s = a # b # c # d # e # f # rest \<and> a \<in> set ''Ss'' \<and> is_digit b \<and> is_digit c
        \<and> d \<in> set ''Ee'' \<and> is_digit e \<and> is_digit f)"
proof (cases s)
  case Nil then show ?thesis by (simp add: pattern_def)
next
  case s0: (Cons a s1)
  show ?thesis
  proof (cases s1)
    case Nil with s0 show ?thesis by (simp add: pattern_def)
  next
    case s1: (Cons b s2)
    show ?thesis
    proof (cases s2)
      case Nil with s0 s1 show ?thesis by (simp add: pattern_def)
    next
      case s2: (Cons c s3)
      show ?thesis
      proof (cases s3)
        case Nil with s0 s1 s2 show ?thesis by (simp add: pattern_def)
      next
        case s3: (Cons d s4)
        show ?thesis
        proof (cases s4)
          case Nil with s0 s1 s2 s3 show ?thesis by (simp add: pattern_def)
        next
          case s4: (Cons e s5)
          show ?thesis
          proof (cases s5)
            case Nil with s0 s1 s2 s3 s4 show ?thesis by (simp add: pattern_def)
          next
            case (Cons f rest) with s0 s1 s2 s3 s4 show ?thesis by (simp add: pattern_def)
          qed
        qed
      qed
    qed
  qed
qed

lemma match_here_pattern_ne: "match_here pattern s \<Longrightarrow> s \<noteq> []"
  by (auto simp: match_here_pattern_iff)

lemma py_int_two:
  "is_digit b \<Longrightarrow> is_digit c \<Longrightarrow> py_int [b, c] = Inr (10 * digit_val b + digit_val c)"
  by (simp add: py_int_def)

lemma findall_no_match:
  "s \<noteq> [] \<Longrightarrow> \<not> match_here pattern s \<Longrightarrow> findall pattern s = findall pattern (tl s)"
  by (subst findall.simps) (simp add: pattern_ne)

lemma findall_match:
  "match_here pattern s \<Longrightarrow> findall pattern s = take 6 s # findall pattern (drop 6 s)"
  by (subst findall.simps) (simp add: pattern_ne pattern_len match_here_pattern_ne)

lemma findall_nil: "findall pattern [] = []"
  by (subst findall.simps) (simp add: pattern_ne)

lemma findall_leftmost:
  "occurs_at s i \<Longrightarrow> (\<forall>j<i. \<not> occurs_at s j) \<Longrightarrow>
     findall pattern s = take 6 (drop i s) # findall pattern (drop (i + 6) s)"
proof (induction i arbitrary: s)
  case 0
  then show ?case by (simp add: occurs_at_def findall_match)
next
  case (Suc i)
  from Suc.prems(2) have nm: "\<not> match_here pattern s" by (auto simp: occurs_at_def)
  from Suc.prems(1) have ne: "s \<noteq> []" by (auto simp: occurs_at_def dest: match_here_pattern_ne)
  have 1: "occurs_at (tl s) i" using Suc.prems(1) by (simp add: occurs_at_def drop_Suc)
  have 2: "\<forall>j<i. \<not> occurs_at (tl s) j" using Suc.prems(2) by (auto simp add: occurs_at_def drop_Suc)
  have 3: "drop (Suc i + 6) s = drop (i + 6) (tl s)" by (metis add_Suc drop_Suc)
  show ?case using Suc.IH[OF 1 2] findall_no_match[OF ne nm] unfolding 3 by (simp add: drop_Suc)
qed

lemma findall_none: "(\<forall>i. \<not> occurs_at s i) \<Longrightarrow> findall pattern s = []"
proof (induction s)
  case Nil
  then show ?case by (simp add: findall_nil)
next
  case (Cons c cs)
  have nm: "\<not> match_here pattern (c # cs)"
    using Cons.prems[rule_format, of 0] by (simp add: occurs_at_def)
  have "\<forall>i. \<not> occurs_at cs i"
    using Cons.prems[rule_format, of "Suc _"] by (simp add: occurs_at_def)
  then show ?case using Cons.IH findall_no_match[OF _ nm] by simp
qed

lemma occurs_at_parts:
  assumes "occurs_at s i"
  shows "\<exists>a b c d e f. take 6 (drop i s) = [a, b, c, d, e, f] \<and> a \<in> set ''Ss'' \<and> is_digit b \<and> is_digit c
        \<and> d \<in> set ''Ee'' \<and> is_digit e \<and> is_digit f \<and> i + 6 \<le> length s
        \<and> b = s ! (i + 1) \<and> c = s ! (i + 2) \<and> e = s ! (i + 4) \<and> f = s ! (i + 5)"
proof -
  from assms obtain a b c d e f rest where
    d: "drop i s = a # b # c # d # e # f # rest" and
    cls: "a \<in> set ''Ss''" "is_digit b" "is_digit c" "d \<in> set ''Ee''" "is_digit e" "is_digit f"
    unfolding occurs_at_def match_here_pattern_iff by blast
  have len: "i + 6 \<le> length s"
  proof -
    have "length (drop i s) \<ge> 6" by (simp add: d)
    then show ?thesis by simp
  qed
  have nth: "\<And>k. s ! (i + k) = (drop i s) ! k"
    using len by simp
  have "s ! (i + 1) = b" "s ! (i + 2) = c" "s ! (i + 4) = e" "s ! (i + 5) = f"
    unfolding nth d by simp_all
  with d cls len show ?thesis by simp
qed

lemma occurs_at_bound: "occurs_at s i \<Longrightarrow> i + 6 \<le> length s"
  using occurs_at_parts by blast

lemma parse_leftmost:
  assumes "occurs_at fn i" and "\<forall>j<i. \<not> occurs_at fn j"
  shows "parse_episode_file fn =
        Inr (Some (10 * digit_val (fn ! (i + 1)) + digit_val (fn ! (i + 2)),
                   10 * digit_val (fn ! (i + 4)) + digit_val (fn ! (i + 5))))"
proof -
  from assms(1) obtain a b c d e f where
    m: "take 6 (drop i fn) = [a, b, c, d, e, f]" and
    dg: "is_digit b" "is_digit c" "is_digit e" "is_digit f" and
    nth: "b = fn ! (i + 1)" "c = fn ! (i + 2)" "e = fn ! (i + 4)" "f = fn ! (i + 5)"
    using occurs_at_parts[of fn i] by blast
  have "findall pattern fn = [a, b, c, d, e, f] # findall pattern (drop (i + 6) fn)"
    using findall_leftmost[of fn i] assms m by simp
  then show ?thesis
    using dg nth by (simp add: parse_episode_file_def slice_def slice_from_def py_int_two)
qed

lemma parse_no_occurrence: "(\<forall>k. \<not> occurs_at fn k) \<Longrightarrow> parse_episode_file fn = Inr None"
  by (simp add: parse_episode_file_def findall_none)

lemma parse_episode_file_no_raise: "\<exists>r. parse_episode_file fn = Inr r"
proof (cases "\<exists>i. occurs_at fn i")
  case True
  then obtain i where "occurs_at fn i" "\<forall>j<i. \<not> occurs_at fn j"
    using exists_least_iff[of "occurs_at fn"] by blast
  then show ?thesis using parse_leftmost by blast
next
  case False
  then show ?thesis using parse_no_occurrence by blast
qed

text \<open>
  C2. A filename with an occurrence of the pattern parses to the two numbers that
  the digit pairs of its leftmost occurrence denote (the first digit counts ten
  times, so a leading zero adds nothing); a filename with no occurrence parses
  to no match. In neither case is an exception raised.
\<close>

theorem parse_episode_file_spec:
  "(occurs_at fn i \<and> (\<forall>j<i. \<not> occurs_at fn j) \<longrightarrow>
      parse_episode_file fn =
        Inr (Some (10 * digit_val (fn ! (i + 1)) + digit_val (fn ! (i + 2)),
                   10 * digit_val (fn ! (i + 4)) + digit_val (fn ! (i + 5)))))
   \<and> ((\<forall>k. \<not> occurs_at fn k) \<longrightarrow> parse_episode_file fn = Inr None)"
  using parse_leftmost[of fn i] parse_no_occurrence[of fn] by blast

theorem parse_episode_file_spec_witness:
  "parse_episode_file ''Show.Name.S01E05.mkv'' = Inr (Some (1, 5)) \<and>
   parse_episode_file ''random_file.txt'' = Inr None"
proof -
  have a: "occurs_at ''Show.Name.S01E05.mkv'' 10"
    by (simp add: occurs_at_def pattern_def is_digit_def)
  have b: "\<forall>j<10. \<not> occurs_at ''Show.Name.S01E05.mkv'' j"
    by (simp add: occurs_at_def pattern_def is_digit_def All_less_Suc numeral_eq_Suc)
  have c0: "\<forall>k<10. \<not> occurs_at ''random_file.txt'' k"
    by (simp add: occurs_at_def pattern_def is_digit_def All_less_Suc numeral_eq_Suc)
  have c: "\<forall>k. \<not> occurs_at ''random_file.txt'' k"
  proof (intro allI notI)
    fix k assume o: "occurs_at ''random_file.txt'' k"
    then have "k < 10" using occurs_at_bound[OF o] by simp
    with c0 o show False by blast
  qed
  from parse_episode_file_spec[of "''Show.Name.S01E05.mkv''" 10] a b
  have 1: "parse_episode_file ''Show.Name.S01E05.mkv'' = Inr (Some (1, 5))"
    by (simp add: digit_val_def)
  from parse_episode_file_spec[of "''random_file.txt''"] c
  have 2: "parse_episode_file ''random_file.txt'' = Inr None" by blast
  from 1 2 show ?thesis by simp
qed

section \<open>The filename template\<close>

lemma replace_char_empty: "replace_char x [] s = filter (\<lambda>c. c \<noteq> x) s"
  by (induction s) (simp_all add: replace_char_def)

lemma digits_of_small: "n < 10 \<Longrightarrow> digits_of n = [digit_char n]"
  by (subst digits_of.simps) simp

lemma digits_of_big: "\<not> n < 10 \<Longrightarrow> digits_of n = digits_of (n div 10) @ [digit_char (n mod 10)]"
  by (subst digits_of.simps) simp

lemma digits_of_ne: "digits_of n \<noteq> []"
  by (subst digits_of.simps) simp

lemma length_digits_of_pos: "Suc 0 \<le> length (digits_of n)"
  by (cases "digits_of n") (simp_all add: digits_of_ne)

lemma length_digits_of_big: "\<not> n < 10 \<Longrightarrow> 2 \<le> length (digits_of n)"
  using length_digits_of_pos[of "n div 10"] by (simp add: digits_of_big)

lemma format_02_zero_padded2: "format_02 n = zero_padded2 n"
proof -
  consider "n < 0" | "0 \<le> n" "n < 10" | "10 \<le> n" by linarith
  then show ?thesis
  proof cases
    case 1
    then show ?thesis using length_digits_of_pos[of "nat (- n)"]
      by (simp add: format_02_def zero_padded2_def numeral_of_def Let_def)
  next
    case 2
    then show ?thesis
      by (simp add: format_02_def zero_padded2_def numeral_of_def Let_def digits_of_small)
  next
    case 3
    then have "\<not> nat n < 10" by simp
    from length_digits_of_big[OF this] 3 show ?thesis
      by (simp add: format_02_def zero_padded2_def numeral_of_def Let_def)
  qed
qed

lemma format_filename_eq:
  "format_filename show s e a ext =
     remove_colons show @ '' S'' @ zero_padded2 s @ ''E'' @ zero_padded2 e @ '' '' @ py_str a @ ext"
  by (simp add: format_filename_def replace_char_empty remove_colons_def format_02_zero_padded2)

text \<open>
  C4. The new filename is the show name without its colons, then \<^verbatim>\<open> S\<close> and the
  season zero-padded to two digits, \<^verbatim>\<open>E\<close> and the episode zero-padded to two
  digits, a space, the episode name and the extension as given; the example of
  the specification comes out as \<^verbatim>\<open>Show Title S01E05 Pilot.mkv\<close>.
\<close>

theorem format_filename_spec:
  "format_filename show s e (PyStr name) ext =
     remove_colons show @ '' S'' @ zero_padded2 s @ ''E'' @ zero_padded2 e @ '' '' @ name @ ext
   \<and> format_filename ''Show: Title'' 1 5 (PyStr ''Pilot'') ''.mkv'' = ''Show Title S01E05 Pilot.mkv''"
proof
  show "format_filename show s e (PyStr name) ext =
     remove_colons show @ '' S'' @ zero_padded2 s @ ''E'' @ zero_padded2 e @ '' '' @ name @ ext"
    by (simp add: format_filename_eq)
  show "format_filename ''Show: Title'' 1 5 (PyStr ''Pilot'') ''.mkv'' = ''Show Title S01E05 Pilot.mkv''"
    by (simp add: format_filename_def replace_char_def format_02_def digits_of_small digit_char_def)
qed

section \<open>The rename plan builder\<close>

lemma file_changes_loop_eq:
  "file_changes_loop files show episodes acc =
     Inr (acc @ concat (map (change_for show episodes) files))"
proof (induction files arbitrary: acc)
  case Nil
  then show ?case by simp
next
  case (Cons f files)
  obtain r where r: "parse_episode_file (path_name f) = Inr r"
    using parse_episode_file_no_raise by blast
  show ?case
  proof (cases r)
    case None
    with r Cons.IH show ?thesis by (simp add: change_for_def)
  next
    case (Some p)
    obtain s e where "p = (s, e)" by (cases p)
    with Some r Cons.IH show ?thesis by (simp add: change_for_def Let_def)
  qed
qed

lemma map_old_change_for:
  "map old (concat (map (change_for show episodes) files)) = filter (\<lambda>f. parsed (path_name f)) files"
proof (induction files)
  case Nil
  then show ?case by simp
next
  case (Cons f files)
  then show ?case
    by (auto simp: change_for_def parsed_def split: sum.splits option.splits)
qed

lemma get_file_changes_eq:
  "get_file_changes files show episodes =
     (if concat (map (change_for show episodes) files) = []
      then Inl (Exit ''Unable to parse files in given directory.'')
      else Inr (concat (map (change_for show episodes) files)))"
  by (simp add: get_file_changes_def exit_on_null_def file_changes_loop_eq)

text \<open>
  C3. The plan has one entry for each file whose name parses, none for any other
  file, and its entries come in the order of the files: the old paths of the
  plan are the files that parse, filtered out of the input in place. When no
  file parses, the decorator ends the run with the error panel instead of
  returning the empty plan. The builder is a function of the files, the show
  name and the episodes alone; it takes no disk and returns none.
\<close>

theorem get_file_changes_plan:
  "(case get_file_changes files show episodes of
      Inr plan \<Rightarrow> map old plan = filter (\<lambda>f. parsed (path_name f)) files
    | Inl e \<Rightarrow> e = Exit ''Unable to parse files in given directory.'' \<and>
               filter (\<lambda>f. parsed (path_name f)) files = [])"
proof -
  define plan where "plan = concat (map (change_for show episodes) files)"
  have m: "map old plan = filter (\<lambda>f. parsed (path_name f)) files"
    unfolding plan_def by (rule map_old_change_for)
  have g: "get_file_changes files show episodes =
     (if plan = [] then Inl (Exit ''Unable to parse files in given directory.'') else Inr plan)"
    unfolding plan_def by (rule get_file_changes_eq)
  show ?thesis
  proof (cases "plan = []")
    case True
    with m have "filter (\<lambda>f. parsed (path_name f)) files = []" by simp
    with True g show ?thesis by simp
  next
    case False
    with g m show ?thesis by simp
  qed
qed


theorem get_file_changes_plan_witness:
  "(case get_file_changes [[''d'', ''a_S01E01.mkv''], [''d'', ''notes.txt''], [''d'', ''b_S01E02.mkv'']] ''Show'' [] of
      Inr plan \<Rightarrow> map old plan
    | Inl e \<Rightarrow> []) = [[''d'', ''a_S01E01.mkv''], [''d'', ''b_S01E02.mkv'']]"
proof -
  have f: "filter (\<lambda>f. parsed (path_name f)) [[''d'', ''a_S01E01.mkv''], [''d'', ''notes.txt''], [''d'', ''b_S01E02.mkv'']]
      = [[''d'', ''a_S01E01.mkv''], [''d'', ''b_S01E02.mkv'']]"
    by code_simp
  show ?thesis
    using get_file_changes_plan[of "[[''d'', ''a_S01E01.mkv''], [''d'', ''notes.txt''], [''d'', ''b_S01E02.mkv'']]" "''Show''" "[]"]
    unfolding f by (simp split: sum.splits)
qed

lemma find_by_attr_None: "(\<forall>x\<in>set xs. attr x \<noteq> v) \<Longrightarrow> find_by_attr xs attr v = None"
  by (induction xs) auto

lemma find_by_attr_first:
  "(\<forall>y\<in>set pre. attr y \<noteq> v) \<Longrightarrow> attr x = v \<Longrightarrow> find_by_attr (pre @ x # post) attr v = Some x"
  by (induction pre) auto

lemma change_for_in_plan:
  assumes "f \<in> set files" and "parse_episode_file (path_name f) = Inr (Some (s, e))"
  shows "\<exists>plan. get_file_changes files show episodes = Inr plan \<and>
           \<lparr>old = f,
            new = joinpath (path_parent f)
                    (format_filename show s e (found_episode (find_by_attr episodes episode_number e))
                       (path_suffix f)),
            is_file = True\<rparr> \<in> set plan"
proof -
  let ?c = "\<lparr>old = f,
            new = joinpath (path_parent f)
                    (format_filename show s e (found_episode (find_by_attr episodes episode_number e))
                       (path_suffix f)),
            is_file = True\<rparr>"
  have "?c \<in> set (change_for show episodes f)" using assms(2) by (simp add: change_for_def)
  with assms(1) have in_plan: "?c \<in> set (concat (map (change_for show episodes) files))" by auto
  have ne: "\<And>(x::PathChange) xs. x \<in> set xs \<Longrightarrow> xs \<noteq> []" by auto
  from ne[OF in_plan] have "concat (map (change_for show episodes) files) \<noteq> []" .
  then have "get_file_changes files show episodes = Inr (concat (map (change_for show episodes) files))"
    by (simp add: get_file_changes_eq)
  with in_plan show ?thesis by blast
qed

text \<open>
  C5. A file whose name parses gets its entry whether or not an episode has the
  parsed number. When none has, the scan returns nothing and the new name
  carries the text \<^verbatim>\<open>None\<close> between the space and the extension; when some have,
  the scan returns the first of them and the new name carries its name there.
\<close>

theorem get_file_changes_episode_name:
  assumes "f \<in> set files" and "parse_episode_file (path_name f) = Inr (Some (s, e))"
  shows
  "((\<forall>x\<in>set episodes. episode_number x \<noteq> e) \<longrightarrow>
      find_by_attr episodes episode_number e = None \<and>
      (\<exists>plan. get_file_changes files show episodes = Inr plan \<and>
         \<lparr>old = f,
          new = joinpath (path_parent f)
                  (remove_colons show @ '' S'' @ zero_padded2 s @ ''E'' @ zero_padded2 e @ '' '' @
                   ''None'' @ path_suffix f),
          is_file = True\<rparr> \<in> set plan))
   \<and> (episodes = pre @ ep # post \<and> (\<forall>x\<in>set pre. episode_number x \<noteq> e) \<and> episode_number ep = e \<longrightarrow>
      find_by_attr episodes episode_number e = Some ep \<and>
      (\<exists>plan. get_file_changes files show episodes = Inr plan \<and>
         \<lparr>old = f,
          new = joinpath (path_parent f)
                  (remove_colons show @ '' S'' @ zero_padded2 s @ ''E'' @ zero_padded2 e @ '' '' @
                   episode_name ep @ path_suffix f),
          is_file = True\<rparr> \<in> set plan))"
proof (intro conjI impI)
  assume none: "\<forall>x\<in>set episodes. episode_number x \<noteq> e"
  then show n: "find_by_attr episodes episode_number e = None" by (rule find_by_attr_None)
  show "\<exists>plan. get_file_changes files show episodes = Inr plan \<and>
         \<lparr>old = f,
          new = joinpath (path_parent f)
                  (remove_colons show @ '' S'' @ zero_padded2 s @ ''E'' @ zero_padded2 e @ '' '' @
                   ''None'' @ path_suffix f),
          is_file = True\<rparr> \<in> set plan"
    using change_for_in_plan[OF assms, of "show" episodes] n
    by (simp add: format_filename_eq found_episode_def)
next
  assume h: "episodes = pre @ ep # post \<and> (\<forall>x\<in>set pre. episode_number x \<noteq> e) \<and> episode_number ep = e"
  then show s: "find_by_attr episodes episode_number e = Some ep"
    using find_by_attr_first[of pre episode_number e ep post] by simp
  show "\<exists>plan. get_file_changes files show episodes = Inr plan \<and>
         \<lparr>old = f,
          new = joinpath (path_parent f)
                  (remove_colons show @ '' S'' @ zero_padded2 s @ ''E'' @ zero_padded2 e @ '' '' @
                   episode_name ep @ path_suffix f),
          is_file = True\<rparr> \<in> set plan"
    using change_for_in_plan[OF assms, of "show" episodes] s
    by (simp add: format_filename_eq found_episode_def)
qed

theorem get_file_changes_episode_name_witness:
  "find_by_attr [\<lparr>episode_name = ''Pilot'', episode_number = 1, episode_id = 7\<rparr>] episode_number 2 = None \<and>
   (\<exists>plan. get_file_changes [[''d'', ''x.S01E02.mkv'']] ''Show: X''
              [\<lparr>episode_name = ''Pilot'', episode_number = 1, episode_id = 7\<rparr>] = Inr plan \<and>
       \<lparr>old = [''d'', ''x.S01E02.mkv''], new = [''d'', ''Show X S01E02 None.mkv''], is_file = True\<rparr> \<in> set plan) \<and>
   find_by_attr [\<lparr>episode_name = ''Pilot'', episode_number = 1, episode_id = 7\<rparr>,
                 \<lparr>episode_name = ''Other'', episode_number = 1, episode_id = 8\<rparr>] episode_number 1
     = Some \<lparr>episode_name = ''Pilot'', episode_number = 1, episode_id = 7\<rparr> \<and>
   (\<exists>plan. get_file_changes [[''d'', ''x.S01E01.mkv'']] ''Show: X''
              [\<lparr>episode_name = ''Pilot'', episode_number = 1, episode_id = 7\<rparr>,
               \<lparr>episode_name = ''Other'', episode_number = 1, episode_id = 8\<rparr>] = Inr plan \<and>
       \<lparr>old = [''d'', ''x.S01E01.mkv''], new = [''d'', ''Show X S01E01 Pilot.mkv''], is_file = True\<rparr> \<in> set plan)"
proof -
  let ?pilot = "\<lparr>episode_name = ''Pilot'', episode_number = 1, episode_id = 7\<rparr>"
  let ?other = "\<lparr>episode_name = ''Other'', episode_number = 1, episode_id = 8\<rparr>"
  have p2: "parse_episode_file (path_name [''d'', ''x.S01E02.mkv'']) = Inr (Some (1, 2))" by code_simp
  have p1: "parse_episode_file (path_name [''d'', ''x.S01E01.mkv'']) = Inr (Some (1, 1))" by code_simp
  have n2: "joinpath (path_parent [''d'', ''x.S01E02.mkv''])
              (remove_colons ''Show: X'' @ '' S'' @ zero_padded2 1 @ ''E'' @ zero_padded2 2 @ '' '' @
               ''None'' @ path_suffix [''d'', ''x.S01E02.mkv'']) = [''d'', ''Show X S01E02 None.mkv'']"
    by code_simp
  have n1: "joinpath (path_parent [''d'', ''x.S01E01.mkv''])
              (remove_colons ''Show: X'' @ '' S'' @ zero_padded2 1 @ ''E'' @ zero_padded2 1 @ '' '' @
               episode_name ?pilot @ path_suffix [''d'', ''x.S01E01.mkv'']) = [''d'', ''Show X S01E01 Pilot.mkv'']"
    by code_simp
  have a: "find_by_attr [?pilot] episode_number 2 = None \<and>
      (\<exists>plan. get_file_changes [[''d'', ''x.S01E02.mkv'']] ''Show: X'' [?pilot] = Inr plan \<and>
         \<lparr>old = [''d'', ''x.S01E02.mkv''], new = [''d'', ''Show X S01E02 None.mkv''], is_file = True\<rparr> \<in> set plan)"
    using get_file_changes_episode_name[of "[''d'', ''x.S01E02.mkv'']"
        "[[''d'', ''x.S01E02.mkv'']]" 1 2 "[?pilot]" "''Show: X''", OF _ p2]
    unfolding n2 by simp
  have b: "find_by_attr [?pilot, ?other] episode_number 1 = Some ?pilot \<and>
      (\<exists>plan. get_file_changes [[''d'', ''x.S01E01.mkv'']] ''Show: X'' [?pilot, ?other] = Inr plan \<and>
         \<lparr>old = [''d'', ''x.S01E01.mkv''], new = [''d'', ''Show X S01E01 Pilot.mkv''], is_file = True\<rparr> \<in> set plan)"
    using get_file_changes_episode_name[of "[''d'', ''x.S01E01.mkv'']"
        "[[''d'', ''x.S01E01.mkv'']]" 1 1 "[?pilot, ?other]" "''Show: X''" "[]" ?pilot "[?other]", OF _ p1]
    unfolding n1 by simp
  from a b show ?thesis by (simp only: conj_assoc)
qed

section \<open>The season list\<close>

lemma get_show_seasons_loop_eq:
  "get_show_seasons_loop data seasons = seasons @ filter (\<lambda>r. 0 < season_number r) data"
  by (induction data arbitrary: seasons) simp_all

lemma get_show_seasons_eq: "get_show_seasons data = filter (\<lambda>r. 0 < season_number r) data"
  by (simp add: get_show_seasons_def get_show_seasons_loop_eq)

text \<open>
  C8. Whatever the provider answers, every season that \<open>get_show_seasons\<close> returns
  has a number above zero: the specials (number 0) are left out.
\<close>

theorem get_show_seasons_positive: "\<forall>s\<in>set (get_show_seasons data). 0 < season_number s"
  by (simp add: get_show_seasons_eq)

theorem get_show_seasons_positive_witness:
  "get_show_seasons [specials, season_two, season_three] = [season_two, season_three] \<and>
   0 < season_number season_two \<and> 0 < season_number season_three"
proof -
  have e: "get_show_seasons [specials, season_two, season_three] = [season_two, season_three]"
    by (simp add: get_show_seasons_def specials_def season_two_def season_three_def)
  from get_show_seasons_positive[of "[specials, season_two, season_three]"]
  have "\<forall>s\<in>set [season_two, season_three]. 0 < season_number s" unfolding e .
  with e show ?thesis by simp
qed

section \<open>Season selection\<close>

lemma get_tv_season_explicit:
  assumes "0 < n" and "n \<le> int (length (get_show_seasons (seasons_response w sid)))"
  shows "get_tv_season w sid (Some n) = ([], Inr (get_show_seasons (seasons_response w sid) ! nat (n - 1)))"
  using assms by (simp add: get_tv_season_def Let_def)

lemma get_tv_season_selector:
  assumes "\<not> (0 < n \<and> n \<le> int (length (get_show_seasons (seasons_response w sid))))"
  shows "get_tv_season w sid (Some n) =
      (if get_show_seasons (seasons_response w sid) = [] then ([], Inl ValueError)
       else ([Asked ''Season''], exit_on_none ''Invalid season number given.'' (Inr (season_answer w))))"
  using assms by (auto simp add: get_tv_season_def Let_def select_def exit_on_none_def)

lemma get_tv_season_none:
  "get_tv_season w sid None =
      (if get_show_seasons (seasons_response w sid) = [] then ([], Inl ValueError)
       else ([Asked ''Season''], exit_on_none ''Invalid season number given.'' (Inr (season_answer w))))"
  by (auto simp add: get_tv_season_def Let_def select_def exit_on_none_def)

text \<open>
  C6. With the season list \<open>seasons\<close> that the provider's answer gives, a season
  number \<open>n\<close> with \<open>0 < n \<le> length seasons\<close> selects the element at position \<open>n\<close>
  of the list, counted from one, and nothing is asked; any other number sends
  the list to the selector (which asks the user, or raises when the list is
  empty). The position is not the season's own number: in the example, position
  1 holds season 2.
\<close>

theorem get_tv_season_spec:
  "(0 < n \<and> n \<le> int (length (get_show_seasons (seasons_response w sid))) \<longrightarrow>
      get_tv_season w sid (Some n) =
        ([], Inr (get_show_seasons (seasons_response w sid) ! nat (n - 1))))
   \<and> (\<not> (0 < n \<and> n \<le> int (length (get_show_seasons (seasons_response w sid)))) \<longrightarrow>
      get_tv_season w sid (Some n) =
        (if get_show_seasons (seasons_response w sid) = [] then ([], Inl ValueError)
         else ([Asked ''Season''],
               exit_on_none ''Invalid season number given.'' (Inr (season_answer w)))))"
  using get_tv_season_explicit[of n w sid] get_tv_season_selector[of n w sid] by blast

theorem get_tv_season_spec_witness:
  "get_tv_season demo_world 1 (Some 1) = ([], Inr season_two) \<and> season_number season_two = 2 \<and>
   get_tv_season demo_world 1 (Some 3) = ([Asked ''Season''], Inr season_three)"
proof -
  have s: "get_show_seasons (seasons_response demo_world 1) = [season_two, season_three]"
    by (simp add: get_show_seasons_def demo_world_def specials_def season_two_def season_three_def)
  have a: "get_tv_season demo_world 1 (Some 1) = ([], Inr season_two)"
    using get_tv_season_spec[of 1 demo_world 1] unfolding s by simp
  have b: "get_tv_season demo_world 1 (Some 3) = ([Asked ''Season''], Inr season_three)"
    using get_tv_season_spec[of 3 demo_world 1] unfolding s
    by (simp add: exit_on_none_def demo_world_def)
  from a b show ?thesis by (simp add: season_two_def)
qed

section \<open>The directory listing\<close>

lemma get_files_loop_eq:
  "get_files_loop it files = files @ map fst (filter kept it)"
  by (induction it arbitrary: files) (auto simp: kept_def)

lemma get_files_sorted_eq: "get_files it True = sort (map fst (filter kept it))"
  by (simp add: get_files_def get_files_loop_eq)

lemma get_files_unsorted_eq: "get_files it False = map fst (filter kept it)"
  by (simp add: get_files_def get_files_loop_eq)

lemma set_get_files:
  "set (get_files it True) = {f. (f, True) \<in> set it \<and> \<not> startswith (path_name f) ''.''}"
  by (auto simp: get_files_sorted_eq kept_def image_iff)

lemma sibling_le: "(dir @ [a] \<le> dir @ [b]) = (a \<le> b)" for a b :: string
  by (induction dir) auto

lemma sorted_siblings:
  fixes xs :: "path list"
  assumes "sorted xs" and "\<forall>x\<in>set xs. \<exists>n. x = dir @ [n]"
  shows "sorted (map last xs)"
proof -
  have "sorted_wrt (\<lambda>x y. last x \<le> last y) xs"
  proof (rule sorted_wrt_mono_rel[of xs "(\<le>)"])
    fix x y assume "x \<in> set xs" "y \<in> set xs" "x \<le> y"
    with assms(2) obtain a b where "x = dir @ [a]" "y = dir @ [b]" by blast
    with \<open>x \<le> y\<close> show "last x \<le> last y" by (simp add: sibling_le)
  next
    show "sorted_wrt (\<le>) xs" using assms(1) by simp
  qed
  then show ?thesis by (simp add: sorted_wrt_map)
qed

lemma path_name_child: "CHR ''/'' \<notin> set n \<Longrightarrow> path_name (dir @ [n]) = n"
  by (auto simp: path_name_def is_root_def)

lemma get_files_names_sorted:
  assumes "list_all no_slash entries"
  shows "sorted (map path_name (get_files (iterdir dir entries) True))"
proof -
  let ?fs = "get_files (iterdir dir entries) True"
  have form: "\<forall>x\<in>set ?fs. \<exists>n. x = dir @ [n] \<and> CHR ''/'' \<notin> set n"
    using assms by (auto simp: set_get_files iterdir_def list_all_iff no_slash_def)
  then have "sorted (map last ?fs)"
    using sorted_siblings[of ?fs dir] by (auto simp: get_files_sorted_eq)
  moreover have "map path_name ?fs = map last ?fs"
    using form by (intro map_cong refl) (auto simp: path_name_child)
  ultimately show ?thesis by (simp only:)
qed

lemma plan_sublist:
  assumes "get_file_changes files show episodes = Inr plan"
  shows "map old plan = filter (\<lambda>f. parsed (path_name f)) files"
  using assms by (auto simp: get_file_changes_eq map_old_change_for split: if_splits)

text \<open>
  C10. With sorting on, \<open>get_files\<close> returns the kept entries of the listing (the
  regular files whose name does not start with a dot), each as often as it is
  listed, in ascending order of paths; for the entries of one directory that is
  the ascending order of their names. So the old paths of a plan built from it
  are sorted and none of them is a dot file.
\<close>

theorem get_files_spec:
  "sorted (get_files it True)
   \<and> mset (get_files it True) = mset (map fst (filter kept it))
   \<and> (\<forall>f\<in>set (get_files it True). (f, True) \<in> set it \<and> \<not> startswith (path_name f) ''.'')
   \<and> (list_all no_slash entries \<longrightarrow> sorted (map path_name (get_files (iterdir dir entries) True)))
   \<and> (get_file_changes (get_files it True) show episodes = Inr plan \<longrightarrow>
        sorted (map old plan) \<and> (\<forall>c\<in>set plan. \<not> startswith (path_name (old c)) ''.''))"
proof (intro conjI impI)
  show "sorted (get_files it True)" by (simp add: get_files_sorted_eq)
  show "mset (get_files it True) = mset (map fst (filter kept it))" by (simp add: get_files_sorted_eq)
  show "\<forall>f\<in>set (get_files it True). (f, True) \<in> set it \<and> \<not> startswith (path_name f) ''.''"
    by (simp add: set_get_files)
  show "sorted (map path_name (get_files (iterdir dir entries) True))" if "list_all no_slash entries"
    using that by (rule get_files_names_sorted)
next
  assume p: "get_file_changes (get_files it True) show episodes = Inr plan"
  have m: "map old plan = filter (\<lambda>f. parsed (path_name f)) (get_files it True)"
    using plan_sublist[OF p] .
  show "sorted (map old plan)" unfolding m using sorted_filter[of id "get_files it True"] by (simp add: get_files_sorted_eq)
  have "set (map old plan) \<subseteq> set (get_files it True)" unfolding m by auto
  then show "\<forall>c\<in>set plan. \<not> startswith (path_name (old c)) ''.''"
    by (auto simp: set_get_files)
qed

lemma demo_files:
  "get_files (iterdir [''d''] demo_entries) True = [[''d'', ''a_S02E01.mkv''], [''d'', ''b_S02E02.mkv'']]"
  by code_simp

lemma demo_changes:
  "get_file_changes [[''d'', ''a_S02E01.mkv''], [''d'', ''b_S02E02.mkv'']] ''Show: X'' [pilot, second_ep]
     = Inr demo_plan"
  by code_simp

theorem get_files_spec_witness:
  "get_files (iterdir [''d''] demo_entries) True = [[''d'', ''a_S02E01.mkv''], [''d'', ''b_S02E02.mkv'']] \<and>
   sorted (get_files (iterdir [''d''] demo_entries) True) \<and>
   sorted (map path_name (get_files (iterdir [''d''] demo_entries) True)) \<and>
   get_file_changes (get_files (iterdir [''d''] demo_entries) True) ''Show: X'' [pilot, second_ep] = Inr demo_plan \<and>
   sorted (map old demo_plan) \<and>
   \<not> startswith (path_name (old (hd demo_plan))) ''.''"
proof -
  have ns: "list_all no_slash demo_entries" by code_simp
  have ch: "get_file_changes (get_files (iterdir [''d''] demo_entries) True) ''Show: X'' [pilot, second_ep]
     = Inr demo_plan"
    unfolding demo_files by (rule demo_changes)
  have hd_in: "hd demo_plan \<in> set demo_plan" by (simp add: demo_plan_def)
  from get_files_spec[of "iterdir [''d''] demo_entries" demo_entries "[''d'']" "''Show: X''"
      "[pilot, second_ep]" demo_plan] ns ch hd_in demo_files
  show ?thesis by simp
qed

section \<open>The orchestrator\<close>

lemma demo_show: "get_tv_show demo_world (Some ''Show'') True = ([], Inr \<lparr>show_name = ''Show: X'', show_year = ''2020'', show_id = 1\<rparr>)"
  by (simp add: get_tv_show_def search_tv_shows_def demo_world_def)

lemma demo_season: "get_tv_season demo_world 1 (Some 1) = ([], Inr season_two)"
  by (simp add: get_tv_season_def get_show_seasons_def demo_world_def specials_def season_two_def season_three_def)

lemma demo_episodes: "get_tv_episodes demo_world 1 2 = Inr [pilot, second_ep]"
  by (simp add: get_tv_episodes_def get_season_episodes_def exit_on_null_def demo_world_def)

lemma demo_renamed:
  "rename_files demo_disk (map paths demo_plan) =
     ([[''d'', ''Show X S02E01 Pilot.mkv''] \<mapsto> ''A'', [''d'', ''Show X S02E02 Second.mkv''] \<mapsto> ''B'',
       [''d'', ''.c_S02E03.mkv''] \<mapsto> ''C''], None)"
  by (auto simp add: demo_plan_def paths_def os_rename_def demo_disk_def fun_eq_iff)

text \<open>
  C1. A run whose plan is not empty should apply every rename of the plan, in
  the order of the plan, once the confirmation step is over, also when
  confirmation is switched off. The code renames only inside the branch that
  asks for confirmation: with confirmation off it prints \<^verbatim>\<open>Done!\<close> and renames
  nothing. In the example run the plan has two entries, applying them changes
  the disk, and the run without confirmation returns the disk as it was.
\<close>

theorem run_without_confirmation:
  "get_file_changes (get_files (iterdir [''d''] (dir_entries demo_world)) True) ''Show: X''
       [pilot, second_ep] = Inr demo_plan
   \<and> length demo_plan = 2
   \<and> fst (rename_files demo_disk (map paths demo_plan)) [''d'', ''a_S02E01.mkv''] = None
   \<and> demo_disk [''d'', ''a_S02E01.mkv''] = Some ''A''
   \<and> run demo_world demo_disk [''d''] (Some ''Show'') (Some 1) True False
       = ([Printed ''Done!''], demo_disk, None)"
proof -
  have d: "dir_entries demo_world = demo_entries" "is_dir demo_world" by (simp_all add: demo_world_def)
  have n: "season_number season_two = 2" by (simp add: season_two_def)
  have r: "run demo_world demo_disk [''d''] (Some ''Show'') (Some 1) True False
       = ([Printed ''Done!''], demo_disk, None)"
    by (simp add: run_def d demo_show demo_season n demo_episodes demo_files demo_changes)
  have p: "get_file_changes (get_files (iterdir [''d''] (dir_entries demo_world)) True) ''Show: X''
       [pilot, second_ep] = Inr demo_plan"
    by (simp add: d demo_files demo_changes)
  have l: "length demo_plan = 2" by (simp add: demo_plan_def)
  have a: "fst (rename_files demo_disk (map paths demo_plan)) [''d'', ''a_S02E01.mkv''] = None"
    by (simp add: demo_renamed)
  have b: "demo_disk [''d'', ''a_S02E01.mkv''] = Some ''A''" by (simp add: demo_disk_def)
  from p l a b r show ?thesis by (simp only: simp_thms)
qed

text \<open>
  What the orchestrator does otherwise agrees with the claim: with confirmation
  on and the user's consent the plan is applied in order; without confirmation
  no run changes the disk; \<open>rename_files\<close> goes through the pairs from the left
  and stops at the first rename that fails, keeping the renames done before.
\<close>

lemma run_with_confirmation:
  "run demo_world demo_disk [''d''] (Some ''Show'') (Some 1) True True =
     ([Panel demo_plan, Asked ''Commit changes'', Printed ''Done!''],
      [[''d'', ''Show X S02E01 Pilot.mkv''] \<mapsto> ''A'', [''d'', ''Show X S02E02 Second.mkv''] \<mapsto> ''B'',
       [''d'', ''.c_S02E03.mkv''] \<mapsto> ''C''], None)"
proof -
  have d: "dir_entries demo_world = demo_entries" "is_dir demo_world" "confirm_answer demo_world = Some True"
    by (simp_all add: demo_world_def)
  have n: "season_number season_two = 2" by (simp add: season_two_def)
  have f: "filter is_file demo_plan = demo_plan" by (simp add: demo_plan_def)
  show ?thesis
    by (simp add: run_def d demo_show demo_season n demo_episodes demo_files demo_changes
        confirm_changes_def demo_renamed f)
qed

lemma run_confirmed_applies_plan:
  assumes "is_dir w"
    and "get_tv_show w show auto = (ev1, Inr tv_show)"
    and "get_tv_season w (show_id tv_show) season = (ev2, Inr tv_season)"
    and "get_tv_episodes w (show_id tv_show) (season_number tv_season) = Inr tv_episodes"
    and "get_file_changes (get_files (iterdir dir (dir_entries w)) True) (show_name tv_show) tv_episodes
           = Inr changes"
    and "confirm_answer w = Some True"
  shows "fst (snd (run w d dir show season auto True)) = fst (rename_files d (map paths changes))"
  using assms by (simp add: run_def confirm_changes_def split: prod.splits option.splits)

lemma run_without_confirmation_renames_nothing:
  "fst (snd (run w d dir show season auto False)) = d"
  by (auto simp: run_def split: prod.splits sum.splits)

lemma rename_files_append:
  "rename_files d (ps @ qs) =
     (case rename_files d ps of (d', Some e) \<Rightarrow> (d', Some e) | (d', None) \<Rightarrow> rename_files d' qs)"
  by (induction ps arbitrary: d) (auto split: sum.splits)

lemma rename_files_halts:
  assumes "rename_files d ps = (d', None)" and "os_rename d' old_file new_file = Inl e"
  shows "rename_files d (ps @ (old_file, new_file) # qs) = (d', Some e)"
  using assms by (simp add: rename_files_append)

section \<open>Setting a configuration key\<close>

lemma lower_key_value: "lower (key_value key) = key_value key"
  by (cases key) (simp_all add: lower_def lower_char_def)

lemma map_of_dict_set_same: "map_of (dict_set xs k v) k = Some v"
  by (induction xs) auto

lemma map_of_dict_set_other: "k' \<noteq> k \<Longrightarrow> map_of (dict_set xs k v) k' = map_of xs k'"
  by (induction xs) auto

lemma CliConfig_set_rejected:
  "rejected key v \<Longrightarrow> CliConfig_set app cfg key v = ([Printed (must_be_boolean key)], cfg, Inr False)"
  by (simp add: CliConfig_set_def rejected_def)

lemma CliConfig_set_invalid:
  "\<not> rejected key v \<Longrightarrow> \<not> valid_interpolation v \<Longrightarrow> CliConfig_set app cfg key v = ([], cfg, Inl ValueError)"
  by (simp add: CliConfig_set_def rejected_def parser_set_def)

lemma CliConfig_set_no_section:
  "\<not> rejected key v \<Longrightarrow> valid_interpolation v \<Longrightarrow> options_of (parser cfg) app = None \<Longrightarrow>
     CliConfig_set app cfg key v = ([], cfg, Inl NoSectionError)"
  by (auto simp add: CliConfig_set_def rejected_def parser_set_def options_of_def split: if_splits)

lemma CliConfig_set_accepted:
  assumes "\<not> rejected key v" and "valid_interpolation v" and "options_of (parser cfg) app = Some opts"
  shows "\<exists>cfg'. CliConfig_set app cfg key v = ([], cfg', Inr True) \<and>
           options_of (parser cfg') app = Some (dict_set opts (key_value key) v) \<and>
           map_of (dict_set opts (key_value key) v) (key_value key) = Some v \<and>
           config_file cfg' = parser_write (parser cfg')"
proof (cases "app = [] \<or> app = ''DEFAULT''")
  case True
  with assms show ?thesis
    by (auto simp add: CliConfig_set_def rejected_def parser_set_def options_of_def lower_key_value
        map_of_dict_set_same)
next
  case False
  with assms show ?thesis
    by (auto simp add: CliConfig_set_def rejected_def parser_set_def options_of_def lower_key_value
        map_of_dict_set_same)
qed

text \<open>
  C7. Setting \<^verbatim>\<open>auto\<close> or \<^verbatim>\<open>confirm\<close> to a value that in lower case is neither
  \<^verbatim>\<open>true\<close> nor \<^verbatim>\<open>false\<close> prints the message, returns False and changes neither the
  parser nor the file. Every other operation goes on to \<^verbatim>\<open>ConfigParser.set\<close>: when
  the value passes its interpolation check and the section exists, the option is
  stored under the key, the file is rewritten from the parser and True is
  returned; when the value fails the check, ValueError is raised and nothing is
  written.
\<close>

theorem CliConfig_set_spec:
  "(rejected key v \<longrightarrow>
      CliConfig_set app cfg key v = ([Printed (must_be_boolean key)], cfg, Inr False))
   \<and> (\<not> rejected key v \<and> valid_interpolation v \<and> options_of (parser cfg) app = Some opts \<longrightarrow>
      (\<exists>cfg'. CliConfig_set app cfg key v = ([], cfg', Inr True) \<and>
           options_of (parser cfg') app = Some (dict_set opts (key_value key) v) \<and>
           map_of (dict_set opts (key_value key) v) (key_value key) = Some v \<and>
           config_file cfg' = parser_write (parser cfg')))
   \<and> (\<not> rejected key v \<and> \<not> valid_interpolation v \<longrightarrow>
      CliConfig_set app cfg key v = ([], cfg, Inl ValueError))"
  using CliConfig_set_rejected[of key v app cfg] CliConfig_set_accepted[of key v cfg app opts]
    CliConfig_set_invalid[of key v app cfg]
  by blast

text \<open>
  A value with a single percent sign is not rejected by \<open>CliConfig_set\<close>, and for
  the key \<^verbatim>\<open>trakt_api_key\<close> no value is; yet it is neither stored nor written, and
  the call does not return True.
\<close>

theorem CliConfig_set_percent:
  "\<not> rejected TRAKT_API_KEY ''100%'' \<and>
   CliConfig_set ''tvfmt'' demo_config TRAKT_API_KEY ''100%'' = ([], demo_config, Inl ValueError)"
  by code_simp

theorem CliConfig_set_spec_witness:
  "CliConfig_set ''tvfmt'' demo_config AUTO ''maybe'' = ([Printed (must_be_boolean AUTO)], demo_config, Inr False) \<and>
   snd (snd (CliConfig_set ''tvfmt'' demo_config CONFIRM ''FALSE'')) = Inr True \<and>
   options_of (parser (fst (snd (CliConfig_set ''tvfmt'' demo_config CONFIRM ''FALSE'')))) ''tvfmt''
     = Some [(''trakt_api_key'', ''''), (''auto'', ''False''), (''confirm'', ''FALSE'')] \<and>
   config_file (fst (snd (CliConfig_set ''tvfmt'' demo_config CONFIRM ''FALSE'')))
     = parser_write (parser (fst (snd (CliConfig_set ''tvfmt'' demo_config CONFIRM ''FALSE'')))) \<and>
   CliConfig_set ''tvfmt'' demo_config TRAKT_API_KEY ''50%'' = ([], demo_config, Inl ValueError)"
proof -
  have r1: "rejected AUTO ''maybe''" by code_simp
  have r2: "\<not> rejected CONFIRM ''FALSE''" by code_simp
  have r3: "\<not> rejected TRAKT_API_KEY ''50%''" by code_simp
  have v2: "valid_interpolation ''FALSE''" by code_simp
  have v3: "\<not> valid_interpolation ''50%''" by code_simp
  have o: "options_of (parser demo_config) ''tvfmt''
      = Some [(''trakt_api_key'', ''''), (''auto'', ''False''), (''confirm'', ''True'')]" by code_simp
  have d: "dict_set [(''trakt_api_key'', ''''), (''auto'', ''False''), (''confirm'', ''True'')] (key_value CONFIRM) ''FALSE''
      = [(''trakt_api_key'', ''''), (''auto'', ''False''), (''confirm'', ''FALSE'')]" by code_simp
  have a: "CliConfig_set ''tvfmt'' demo_config AUTO ''maybe'' = ([Printed (must_be_boolean AUTO)], demo_config, Inr False)"
    using CliConfig_set_spec[of AUTO "''maybe''" "''tvfmt''" demo_config] r1 by blast
  from CliConfig_set_spec[of CONFIRM "''FALSE''" "''tvfmt''" demo_config
      "[(''trakt_api_key'', ''''), (''auto'', ''False''), (''confirm'', ''True'')]"] r2 v2 o
  obtain cfg' where c: "CliConfig_set ''tvfmt'' demo_config CONFIRM ''FALSE'' = ([], cfg', Inr True)"
    "options_of (parser cfg') ''tvfmt'' =
       Some (dict_set [(''trakt_api_key'', ''''), (''auto'', ''False''), (''confirm'', ''True'')] (key_value CONFIRM) ''FALSE'')"
    "config_file cfg' = parser_write (parser cfg')"
    by blast
  have b: "CliConfig_set ''tvfmt'' demo_config TRAKT_API_KEY ''50%'' = ([], demo_config, Inl ValueError)"
    using CliConfig_set_spec[of TRAKT_API_KEY "''50%''" "''tvfmt''" demo_config] r3 v3 by blast
  from a b c show ?thesis unfolding d by simp
qed

section \<open>Parsing a formatted name\<close>

lemma contains_pattern_iff: "contains_pattern s \<longleftrightarrow> (\<exists>i. occurs_at s i)"
proof
  assume "contains_pattern s"
  then show "\<exists>i. occurs_at s i" by (auto simp: contains_pattern_def list_ex_iff)
next
  assume "\<exists>i. occurs_at s i"
  then obtain i where i: "occurs_at s i" by blast
  from occurs_at_bound[OF i] have "i < length s" by simp
  with i show "contains_pattern s" by (auto simp: contains_pattern_def list_ex_iff)
qed

lemma match_here_append: "length p \<le> length s \<Longrightarrow> match_here p (s @ t) = match_here p s"
  by (induction p s rule: match_here.induct) simp_all

lemma occurs_at_append_left:
  assumes "j + 6 \<le> length xs"
  shows "occurs_at (xs @ ys) j = occurs_at xs j"
proof -
  have "drop j (xs @ ys) = drop j xs @ ys" using assms by simp
  moreover have "length pattern \<le> length (drop j xs)" using assms by (simp add: pattern_len)
  ultimately show ?thesis by (simp add: occurs_at_def match_here_append)
qed

lemma digit_allowed: "is_digit c \<Longrightarrow> c \<in> set ''SsEe0123456789''"
  by (auto simp: is_digit_def)

lemma occurs_at_window:
  assumes "occurs_at s j" and "k < 6"
  shows "s ! (j + k) \<in> set ''SsEe0123456789''"
proof -
  from assms(1) obtain a b c d e f rest where
    d: "drop j s = a # b # c # d # e # f # rest" and
    cls: "a \<in> set ''Ss''" "is_digit b" "is_digit c" "d \<in> set ''Ee''" "is_digit e" "is_digit f"
    unfolding occurs_at_def match_here_pattern_iff by blast
  have al: "a \<in> set ''SsEe0123456789''" "d \<in> set ''SsEe0123456789''"
    using cls(1,4) by auto
  note dg = digit_allowed[OF cls(2)] digit_allowed[OF cls(3)] digit_allowed[OF cls(5)] digit_allowed[OF cls(6)]
  from occurs_at_bound[OF assms(1)] have nth: "s ! (j + k) = drop j s ! k" by simp
  from assms(2) consider "k = 0" | "k = 1" | "k = 2" | "k = 3" | "k = 4" | "k = 5" by arith
  then show ?thesis
  proof cases
    case 1 then show ?thesis unfolding nth d using al(1) by (simp only: nth_Cons_0)
  next
    case 2 then show ?thesis unfolding nth d using dg(1) by (simp only: nth_Cons_0 One_nat_def nth_Cons_Suc)
  next
    case 3 then show ?thesis unfolding nth d using dg(2) by (simp only: nth_Cons_numeral nth_Cons_0 nth_Cons_Suc One_nat_def numeral_2_eq_2) 
  next
    case 4 then show ?thesis unfolding nth d using al(2) by (simp del: set_simps list.set)
  next
    case 5 then show ?thesis unfolding nth d using dg(3) by (simp del: set_simps list.set)
  next
    case 6 then show ?thesis unfolding nth d using dg(4) by (simp del: set_simps list.set)
  qed
qed

lemma no_occurrence_across_space:
  assumes "\<not> contains_pattern xs" and "j \<le> length xs"
  shows "\<not> occurs_at (xs @ CHR '' '' # ys) j"
proof
  assume o: "occurs_at (xs @ CHR '' '' # ys) j"
  show False
  proof (cases "j + 6 \<le> length xs")
    case True
    with o have "occurs_at xs j" by (simp add: occurs_at_append_left)
    with assms(1) show False by (auto simp: contains_pattern_iff)
  next
    case False
    with assms(2) have k: "length xs - j < 6" and e: "j + (length xs - j) = length xs" by simp_all
    from occurs_at_window[OF o k] have "(xs @ CHR '' '' # ys) ! length xs \<in> set ''SsEe0123456789''"
      unfolding e .
    then show False by simp
  qed
qed

lemma digit_char_props:
  assumes "k < 10"
  shows "is_digit (digit_char k)" and "digit_val (digit_char k) = int k"
proof -
  from assms have "k = 0 \<or> k = 1 \<or> k = 2 \<or> k = 3 \<or> k = 4 \<or> k = 5 \<or> k = 6 \<or> k = 7 \<or> k = 8 \<or> k = 9"
    by arith
  then show "is_digit (digit_char k)" and "digit_val (digit_char k) = int k"
    by (auto simp: digit_char_def is_digit_def digit_val_def)
qed

lemma zero_padded2_two_digits:
  assumes "0 \<le> n" and "n \<le> 99"
  shows "\<exists>a b. zero_padded2 n = [a, b] \<and> is_digit a \<and> is_digit b \<and> 10 * digit_val a + digit_val b = n"
proof (cases "n < 10")
  case True
  with assms have "zero_padded2 n = [CHR ''0'', digit_char (nat n)]"
    by (simp add: zero_padded2_def numeral_of_def digits_of_small)
  moreover have "is_digit CHR ''0''" "digit_val CHR ''0'' = 0" by (simp_all add: is_digit_def digit_val_def)
  moreover have "is_digit (digit_char (nat n))" "digit_val (digit_char (nat n)) = n"
    using digit_char_props[of "nat n"] True assms by simp_all
  ultimately show ?thesis by simp
next
  case False
  with assms have big: "\<not> nat n < 10" and d: "nat n div 10 < 10" and m: "nat n mod 10 < 10" by simp_all
  from False assms have "zero_padded2 n = [digit_char (nat n div 10), digit_char (nat n mod 10)]"
    by (simp add: zero_padded2_def numeral_of_def digits_of_big[OF big] digits_of_small[OF d])
  moreover have "int (nat n div 10) = n div 10" "int (nat n mod 10) = n mod 10"
    using assms by (simp_all add: zdiv_int zmod_int)
  then have "10 * int (nat n div 10) + int (nat n mod 10) = n" by simp
  ultimately show ?thesis
    using digit_char_props[OF d] digit_char_props[OF m] by simp
qed

lemma parse_formatted:
  assumes "\<not> contains_pattern (remove_colons show)" and "0 \<le> s" "s \<le> 99" "0 \<le> e" "e \<le> 99"
  shows "parse_episode_file (format_filename show s e a ext) = Inr (Some (s, e))"
proof -
  let ?P = "remove_colons show"
  obtain a1 b1 where s: "zero_padded2 s = [a1, b1]" "is_digit a1" "is_digit b1"
      "10 * digit_val a1 + digit_val b1 = s"
    using zero_padded2_two_digits[OF assms(2,3)] by blast
  obtain a2 b2 where e: "zero_padded2 e = [a2, b2]" "is_digit a2" "is_digit b2"
      "10 * digit_val a2 + digit_val b2 = e"
    using zero_padded2_two_digits[OF assms(4,5)] by blast
  let ?rest = "CHR '' '' # py_str a @ ext"
  let ?tail = "CHR ''S'' # a1 # b1 # CHR ''E'' # a2 # b2 # ?rest"
  have full: "format_filename show s e a ext = ?P @ CHR '' '' # ?tail"
    by (simp add: format_filename_eq s e)
  have occ: "occurs_at (?P @ CHR '' '' # ?tail) (length ?P + 1)"
    using s e by (simp add: occurs_at_def pattern_def)
  have left: "\<forall>j<length ?P + 1. \<not> occurs_at (?P @ CHR '' '' # ?tail) j"
    using no_occurrence_across_space[OF assms(1)] by simp
  have nth: "\<And>k. (?P @ CHR '' '' # ?tail) ! (length ?P + 1 + k) = ?tail ! k"
    by (simp add: nth_append)
  have "(?P @ CHR '' '' # ?tail) ! (length ?P + 1 + 1) = a1"
       "(?P @ CHR '' '' # ?tail) ! (length ?P + 1 + 2) = b1"
       "(?P @ CHR '' '' # ?tail) ! (length ?P + 1 + 4) = a2"
       "(?P @ CHR '' '' # ?tail) ! (length ?P + 1 + 5) = b2"
    unfolding nth by simp_all
  with parse_leftmost[OF occ left] s(4) e(4) show ?thesis unfolding full by (simp only:)
qed

lemma split_on_no_sep: "sep \<notin> set s \<Longrightarrow> split_on sep s = [s]"
  by (induction s) auto

lemma joinpath_component:
  assumes "CHR ''/'' \<notin> set n" and "n \<noteq> []" and "n \<noteq> ''.''"
  shows "joinpath p n = p @ [n]"
proof -
  from assms(1,2) have "\<not> startswith n ''/''" by (cases n) auto
  with assms show ?thesis by (simp add: joinpath_def split_on_no_sep)
qed

lemma parent_join_name:
  assumes "path_name f \<noteq> []"
  shows "path_parent f @ [path_name f] = f"
proof -
  from assms have "f \<noteq> []" "\<not> is_root f" by (auto simp: path_name_def split: if_splits)
  then show ?thesis by (simp add: path_parent_def path_name_def)
qed

lemma format_filename_long: "7 \<le> length (format_filename show s e a ext)"
proof -
  have "2 \<le> length (zero_padded2 n)" for n
  proof (cases "0 \<le> n \<and> n < 10")
    case True
    then show ?thesis using length_digits_of_pos[of "nat n"]
      by (simp add: zero_padded2_def numeral_of_def)
  next
    case False
    show ?thesis
    proof (cases "n < 0")
      case True
      then show ?thesis using length_digits_of_pos[of "nat (- n)"]
        by (simp add: zero_padded2_def numeral_of_def)
    next
      case False
      with \<open>\<not> (0 \<le> n \<and> n < 10)\<close> have "\<not> nat n < 10" by simp
      from length_digits_of_big[OF this] False \<open>\<not> (0 \<le> n \<and> n < 10)\<close> show ?thesis
        by (simp add: zero_padded2_def numeral_of_def)
    qed
  qed
  from this[of s] this[of e] show ?thesis by (simp add: format_filename_eq)
qed

lemma renamed_file_unchanged:
  assumes p: "parse_episode_file (path_name f) = Inr (Some (s, e))"
    and n: "path_name f = format_filename show s e (found_episode (find_by_attr episodes episode_number e)) (path_suffix f)"
    and sl: "CHR ''/'' \<notin> set (path_name f)"
  shows "get_file_changes [f] show episodes = Inr [\<lparr>old = f, new = f, is_file = True\<rparr>]"
proof -
  from format_filename_long[of "show" s e "found_episode (find_by_attr episodes episode_number e)" "path_suffix f"]
  have len: "7 \<le> length (path_name f)" unfolding n[symmetric] .
  then have ne: "path_name f \<noteq> []" "path_name f \<noteq> ''.''" by auto
  have j: "joinpath (path_parent f) (path_name f) = f"
    using joinpath_component[OF sl ne] parent_join_name[OF ne(1)] by simp
  have "change_for show episodes f = [\<lparr>old = f, new = f, is_file = True\<rparr>]"
    using p n[symmetric] j by (simp add: change_for_def)
  then show ?thesis by (simp add: get_file_changes_eq)
qed

lemma rfind_last_dot:
  assumes "c \<notin> set x"
  shows "rfind (stem @ c # x) c = int (length stem)"
proof -
  have "takeWhile (\<lambda>y. y \<noteq> c) (rev x @ c # rev stem) = rev x"
    using assms by (subst takeWhile_append2) auto
  then show ?thesis by (simp add: rfind_def)
qed

lemma suffix_kept:
  assumes "CHR ''.'' \<notin> set x" and "x \<noteq> []" and "stem \<noteq> []" and "CHR ''/'' \<notin> set (stem @ CHR ''.'' # x)"
  shows "path_suffix (dir @ [stem @ CHR ''.'' # x]) = CHR ''.'' # x"
proof -
  have n: "path_name (dir @ [stem @ CHR ''.'' # x]) = stem @ CHR ''.'' # x"
    using assms(4) by (rule path_name_child)
  show ?thesis
    using assms(2,3) by (simp add: path_suffix_def n rfind_last_dot[OF assms(1)] Let_def)
qed

text \<open>
  C9. Take a show name that holds no occurrence of the pattern once its colons
  are removed, and a season and an episode number from 0 to 99. Then the
  formatted name parses back to that pair, whatever the episode name and the
  extension; and a file that bears the formatted name, whose suffix is the
  extension and whose name holds no slash, is mapped to itself by the plan
  builder, so that a second pass renames nothing. The suffix of the formatted
  name is the extension whenever the extension is a proper suffix, a dot
  followed by characters other than a dot (\<open>suffix_kept\<close>).
\<close>

theorem format_parse_roundtrip:
  assumes "\<not> contains_pattern (remove_colons show)" and "0 \<le> s" "s \<le> 99" "0 \<le> e" "e \<le> 99"
  shows "parse_episode_file (format_filename show s e a ext) = Inr (Some (s, e))
     \<and> (path_name f = format_filename show s e (found_episode (find_by_attr episodes episode_number e)) ext
          \<and> path_suffix f = ext \<and> CHR ''/'' \<notin> set (path_name f) \<longrightarrow>
        get_file_changes [f] show episodes = Inr [\<lparr>old = f, new = f, is_file = True\<rparr>])"
proof (intro conjI impI)
  show "parse_episode_file (format_filename show s e a ext) = Inr (Some (s, e))"
    using assms by (rule parse_formatted)
next
  assume h: "path_name f = format_filename show s e (found_episode (find_by_attr episodes episode_number e)) ext
          \<and> path_suffix f = ext \<and> CHR ''/'' \<notin> set (path_name f)"
  then have h1: "path_name f = format_filename show s e (found_episode (find_by_attr episodes episode_number e)) ext"
    and h2: "path_suffix f = ext" and h3: "CHR ''/'' \<notin> set (path_name f)" by blast+
  have p: "parse_episode_file (path_name f) = Inr (Some (s, e))"
    unfolding h1 using assms by (rule parse_formatted)
  have n: "path_name f = format_filename show s e (found_episode (find_by_attr episodes episode_number e)) (path_suffix f)"
    unfolding h2 by (rule h1)
  show "get_file_changes [f] show episodes = Inr [\<lparr>old = f, new = f, is_file = True\<rparr>]"
    using p n h3 by (rule renamed_file_unchanged)
qed

theorem format_parse_roundtrip_witness:
  "parse_episode_file ''Show X S02E01 Pilot.mkv'' = Inr (Some (2, 1)) \<and>
   get_file_changes [[''d'', ''Show X S02E01 Pilot.mkv'']] ''Show: X'' [pilot, second_ep]
     = Inr [\<lparr>old = [''d'', ''Show X S02E01 Pilot.mkv''], new = [''d'', ''Show X S02E01 Pilot.mkv''], is_file = True\<rparr>]"
proof -
  have a: "\<not> contains_pattern (remove_colons ''Show: X'')" by code_simp
  have n: "format_filename ''Show: X'' 2 1 (found_episode (find_by_attr [pilot, second_ep] episode_number 1)) ''.mkv''
      = ''Show X S02E01 Pilot.mkv''" by code_simp
  have n': "format_filename ''Show: X'' 2 1 (PyStr ''Pilot'') ''.mkv'' = ''Show X S02E01 Pilot.mkv''" by code_simp
  have pn: "path_name [''d'', ''Show X S02E01 Pilot.mkv''] = ''Show X S02E01 Pilot.mkv''" by code_simp
  have ps: "path_suffix [''d'', ''Show X S02E01 Pilot.mkv''] = ''.mkv''" by code_simp
  have sl: "CHR ''/'' \<notin> set ''Show X S02E01 Pilot.mkv''" by simp
  from format_parse_roundtrip[of "''Show: X''" 2 1 "PyStr ''Pilot''" "''.mkv''" "[''d'', ''Show X S02E01 Pilot.mkv'']"
      "[pilot, second_ep]", OF a]
  show ?thesis unfolding n n' pn ps using sl by simp
qed

text \<open>
  The condition on the show name itself is not enough: \<^verbatim>\<open>S0:1E01\<close> holds no
  occurrence, but without its colon it is one, and the formatted name parses to
  season 1, episode 1 instead of the numbers it was built from. And with an
  empty extension the second pass can rename again: the file \<^verbatim>\<open>S01E05\<close> of the
  show \<^verbatim>\<open>Mr. Robot\<close> becomes \<^verbatim>\<open>Mr. Robot S01E05 Pilot\<close>, whose suffix is everything
  from the dot on, and the builder appends that suffix once more.
\<close>

theorem format_parse_roundtrip_fails:
  "\<not> contains_pattern ''S0:1E01'' \<and>
   parse_episode_file (format_filename ''S0:1E01'' 2 3 (PyStr ''Pilot'') ''.mkv'') = Inr (Some (1, 1)) \<and>
   \<not> contains_pattern ''Mr. Robot'' \<and>
   get_file_changes [[''d'', ''S01E05'']] ''Mr. Robot'' [pilot5]
     = Inr [\<lparr>old = [''d'', ''S01E05''], new = [''d'', ''Mr. Robot S01E05 Pilot''], is_file = True\<rparr>] \<and>
   get_file_changes [[''d'', ''Mr. Robot S01E05 Pilot'']] ''Mr. Robot'' [pilot5]
     = Inr [\<lparr>old = [''d'', ''Mr. Robot S01E05 Pilot''],
             new = [''d'', ''Mr. Robot S01E05 Pilot. Robot S01E05 Pilot''], is_file = True\<rparr>]"
  by code_simp

end
